theory Spec2Isabelle
  imports Complex_Main
begin

chapter \<open>Asynkron.Palette: colour conversion, shade ramps and hue strategies\<close>

text \<open>
  A shallow embedding of \<^verbatim>\<open>src/lib/color.js\<close>, \<^verbatim>\<open>src/lib/shades.js\<close>,
  \<^verbatim>\<open>src/lib/strategies.js\<close> and of \<^verbatim>\<open>fillLargestGaps\<close> and \<^verbatim>\<open>isValidHex\<close> from
  \<^verbatim>\<open>src/cli.js\<close>.

  Numbers. A JavaScript Number is modelled as a \<^typ>\<open>real\<close>: arithmetic is exact, there is no
  rounding to 53 bits, no signed zero and no infinity. Where the source can produce
  \<^verbatim>\<open>NaN\<close> from the inputs it is given (a failed \<^verbatim>\<open>parseInt\<close>, a missing table key) the
  model uses an \<^typ>\<open>real option\<close> (or \<^typ>\<open>int option\<close>) whose \<^term>\<open>None\<close> is
  \<^verbatim>\<open>NaN\<close>. Integer-valued arguments (a count, a shade level) are \<^typ>\<open>int\<close> or \<^typ>\<open>nat\<close>.

  Strings. A JavaScript string is modelled as a \<^typ>\<open>string\<close>; a \<^typ>\<open>char\<close> is one code
  unit below 256.
\<close>

section \<open>The embedding\<close>

subsection \<open>Number primitives\<close>

text \<open>Truncation toward zero, as the remainder operator \<^verbatim>\<open>%\<close> uses it.\<close>

definition trunc :: "real \<Rightarrow> int" where
  "trunc x = (if x < 0 then - \<lfloor>- x\<rfloor> else \<lfloor>x\<rfloor>)"

text \<open>\<^verbatim>\<open>a % b\<close>: the remainder has the sign of the dividend.\<close>

definition js_rem :: "real \<Rightarrow> real \<Rightarrow> real" where
  "js_rem a b = a - b * of_int (trunc (a / b))"

text \<open>\<^verbatim>\<open>Math.round\<close>: the nearest integer, a tie going up.\<close>

definition js_round :: "real \<Rightarrow> int" where
  "js_round v = \<lfloor>v + 1 / 2\<rfloor>"

text \<open>\<^verbatim>\<open>Math.atan2(y, x)\<close>, the angle of the point \<open>(x, y)\<close> in \<open>(-\<pi>, \<pi>]\<close>.\<close>

definition atan2 :: "real \<Rightarrow> real \<Rightarrow> real" where
  "atan2 y x =
     (if 0 < x then arctan (y / x)
      else if x < 0 then (if 0 \<le> y then arctan (y / x) + pi else arctan (y / x) - pi)
      else if 0 < y then pi / 2
      else if y < 0 then - (pi / 2)
      else 0)"

subsection \<open>color.js: hex and RGB\<close>

text \<open>
  \<^verbatim>\<open>parseInt(s, 16)\<close>: leading white space is skipped, a sign is read, a prefix
  \<^verbatim>\<open>0x\<close> is dropped, and the longest run of hexadecimal digits is the result; with no
  digit the result is \<^verbatim>\<open>NaN\<close>.
\<close>

definition isWhiteSpace :: "char \<Rightarrow> bool" where
  "isWhiteSpace c = (of_char c \<in> {9, 10, 11, 12, 13, 32, 160 :: nat})"

definition hexDigit :: "char \<Rightarrow> nat option" where
  "hexDigit = map_of (zip ''0123456789abcdefABCDEF''
                [0, 1, 2, 3, 4, 5, 6, 7, 8, 9, 10, 11, 12, 13, 14, 15, 10, 11, 12, 13, 14, 15])"

definition parseInt16 :: "string \<Rightarrow> int option" where
  "parseInt16 s =
     (let s1 = dropWhile isWhiteSpace s;
          sign = (if s1 \<noteq> [] \<and> hd s1 = CHR ''-'' then - 1 else 1);
          s2 = (if s1 \<noteq> [] \<and> (hd s1 = CHR ''+'' \<or> hd s1 = CHR ''-'') then tl s1 else s1);
          s3 = (if take 2 s2 = ''0x'' \<or> take 2 s2 = ''0X'' then drop 2 s2 else s2);
          z = takeWhile (\<lambda>c. hexDigit c \<noteq> None) s3
      in if z = [] then None
         else Some (sign * int (foldl (\<lambda>acc c. case hexDigit c of
                                                   Some d \<Rightarrow> 16 * acc + d
                                                 | None \<Rightarrow> acc) 0 z)))"

text \<open>
  \<^verbatim>\<open>hexToRgb\<close>: the first \<^verbatim>\<open>#\<close> is removed, a three-character string is doubled
  character by character, and the three two-character slices are parsed.
\<close>

definition hexToRgb :: "string \<Rightarrow> int option \<times> int option \<times> int option" where
  "hexToRgb hex0 =
     (let hex1 = remove1 (CHR ''#'') hex0;
          hex = (if length hex1 = 3
                 then [hex1 ! 0, hex1 ! 0, hex1 ! 1, hex1 ! 1, hex1 ! 2, hex1 ! 2]
                 else hex1)
      in (parseInt16 (take 2 hex),
          parseInt16 (take 2 (drop 2 hex)),
          parseInt16 (take 2 (drop 4 hex))))"

text \<open>\<^verbatim>\<open>Number.prototype.toString(16)\<close> on an integer, and \<^verbatim>\<open>padStart\<close>.\<close>

definition hexChar :: "nat \<Rightarrow> char" where
  "hexChar d = ''0123456789abcdef'' ! d"

fun toString16_nat :: "nat \<Rightarrow> string" where
  "toString16_nat n =
     (if n < 16 then [hexChar n] else toString16_nat (n div 16) @ [hexChar (n mod 16)])"

definition toString16 :: "int \<Rightarrow> string" where
  "toString16 n =
     (if n < 0 then CHR ''-'' # toString16_nat (nat (- n)) else toString16_nat (nat n))"

definition padStart :: "nat \<Rightarrow> char \<Rightarrow> string \<Rightarrow> string" where
  "padStart n c s = replicate (n - length s) c @ s"

text \<open>
  \<^verbatim>\<open>rgbToHex\<close>. The local \<^verbatim>\<open>clamp\<close> rounds and then clamps to \<open>[0, 255]\<close>; a
  \<^verbatim>\<open>NaN\<close> channel stays \<^verbatim>\<open>NaN\<close> and prints as the three characters \<^verbatim>\<open>NaN\<close>.
\<close>

definition clamp :: "real \<Rightarrow> int" where
  "clamp v = max 0 (min 255 (js_round v))"

definition hexByte :: "real option \<Rightarrow> string" where
  "hexByte v =
     (case v of
        None \<Rightarrow> ''NaN''
      | Some x \<Rightarrow> padStart 2 (CHR ''0'') (toString16 (clamp x)))"

definition rgbToHex :: "real option \<Rightarrow> real option \<Rightarrow> real option \<Rightarrow> string" where
  "rgbToHex r g b = ''#'' @ concat (map hexByte [r, g, b])"

text \<open>
  \<^verbatim>\<open>String.prototype.toLowerCase\<close> on the letters A to Z, for stating what the round trip
  through \<^verbatim>\<open>hexToRgb\<close> and \<^verbatim>\<open>rgbToHex\<close> does to the case of a hex string; a valid hex
  string has no other letters.
\<close>

definition lower_char :: "char \<Rightarrow> char" where
  "lower_char c =
     (case map_of (zip ''ABCDEFGHIJKLMNOPQRSTUVWXYZ'' ''abcdefghijklmnopqrstuvwxyz'') c of
        Some l \<Rightarrow> l
      | None \<Rightarrow> c)"

definition toLowerCase :: "string \<Rightarrow> string" where
  "toLowerCase s = map lower_char s"

subsection \<open>color.js: sRGB gamma and OKLCH\<close>

definition srgbToLinear :: "real \<Rightarrow> real" where
  "srgbToLinear c0 =
     (let c = c0 / 255
      in if c \<le> 0.04045 then c / 12.92 else ((c + 0.055) / 1.055) powr 2.4)"

definition linearToSrgb :: "real \<Rightarrow> real" where
  "linearToSrgb c0 =
     (let c = max 0 (min 1 c0)
      in (if c \<le> 0.0031308 then c * 12.92 else 1.055 * c powr (1 / 2.4) - 0.055) * 255)"

definition rgbToOklch :: "real \<Rightarrow> real \<Rightarrow> real \<Rightarrow> real \<times> real \<times> real" where
  "rgbToOklch r g b =
     (let lr = srgbToLinear r;
          lg = srgbToLinear g;
          lb = srgbToLinear b;
          l = 0.4122214708 * lr + 0.5363325363 * lg + 0.0514459929 * lb;
          m = 0.2119034982 * lr + 0.6806995451 * lg + 0.1073969566 * lb;
          s = 0.0883024619 * lr + 0.2817188376 * lg + 0.6299787005 * lb;
          l' = root 3 l;
          m' = root 3 m;
          s' = root 3 s;
          L = 0.2104542553 * l' + 0.7936177850 * m' - 0.0040720468 * s';
          A = 1.9779984951 * l' - 2.4285922050 * m' + 0.4505937099 * s';
          B = 0.0259040371 * l' + 0.7827717662 * m' - 0.8086757660 * s';
          C = sqrt (A * A + B * B);
          H0 = atan2 B A * 180 / pi;
          H = (if H0 < 0 then H0 + 360 else H0)
      in (L, C, H))"

definition oklchToRgb :: "real \<Rightarrow> real \<Rightarrow> real \<Rightarrow> real \<times> real \<times> real" where
  "oklchToRgb L C H =
     (let hRad = H * pi / 180;
          A = C * cos hRad;
          B = C * sin hRad;
          l' = L + 0.3963377774 * A + 0.2158037573 * B;
          m' = L - 0.1055613458 * A - 0.0638541728 * B;
          s' = L - 0.0894841775 * A - 1.2914855480 * B;
          l = l' ^ 3;
          m = m' ^ 3;
          s = s' ^ 3;
          lr = 4.0767416621 * l - 3.3077115913 * m + 0.2309699292 * s;
          lg = - 1.2684380046 * l + 2.6097574011 * m - 0.3413193965 * s;
          lb = - 0.0041960863 * l - 0.7034186147 * m + 1.7076147010 * s
      in (linearToSrgb lr, linearToSrgb lg, linearToSrgb lb))"

subsection \<open>The inverse path as the specification words it\<close>

text \<open>
  For comparison with \<^const>\<open>oklchToRgb\<close>: the specification's inverse path, which
  reconstructs \<open>A\<close> and \<open>B\<close> from chroma and hue, applies the inverse OKLAB matrix, cubes, applies
  the inverse LMS matrix (\<open>oklchToLinearRgb\<close>) and then the inverse transfer function per
  channel with no clamp of the linear value (\<open>linearToSrgb_unclamped\<close>).
\<close>

definition linearToSrgb_unclamped :: "real \<Rightarrow> real" where
  "linearToSrgb_unclamped c =
     (if c \<le> 0.0031308 then c * 12.92 else 1.055 * c powr (1 / 2.4) - 0.055) * 255"

definition oklchToLinearRgb :: "real \<Rightarrow> real \<Rightarrow> real \<Rightarrow> real \<times> real \<times> real" where
  "oklchToLinearRgb L C H =
     (let hRad = H * pi / 180;
          A = C * cos hRad;
          B = C * sin hRad;
          l' = L + 0.3963377774 * A + 0.2158037573 * B;
          m' = L - 0.1055613458 * A - 0.0638541728 * B;
          s' = L - 0.0894841775 * A - 1.2914855480 * B;
          l = l' ^ 3;
          m = m' ^ 3;
          s = s' ^ 3
      in (4.0767416621 * l - 3.3077115913 * m + 0.2309699292 * s,
          - 1.2684380046 * l + 2.6097574011 * m - 0.3413193965 * s,
          - 0.0041960863 * l - 0.7034186147 * m + 1.7076147010 * s))"

definition oklchToRgb_unclamped :: "real \<Rightarrow> real \<Rightarrow> real \<Rightarrow> real \<times> real \<times> real" where
  "oklchToRgb_unclamped L C H =
     (case oklchToLinearRgb L C H of
        (lr, lg, lb) \<Rightarrow>
          (linearToSrgb_unclamped lr, linearToSrgb_unclamped lg, linearToSrgb_unclamped lb))"

subsection \<open>color.js: HSL\<close>

definition rgbToHsl :: "real \<Rightarrow> real \<Rightarrow> real \<Rightarrow> real \<times> real \<times> real" where
  "rgbToHsl r0 g0 b0 =
     (let r = r0 / 255;
          g = g0 / 255;
          b = b0 / 255;
          mx = max r (max g b);
          mn = min r (min g b);
          l = (mx + mn) / 2
      in if mx = mn then (0, 0, l)
         else
           (let d = mx - mn;
                s = (if l > 0.5 then d / (2 - mx - mn) else d / (mx + mn));
                h = (if mx = r then ((g - b) / d + (if g < b then 6 else 0)) / 6
                     else if mx = g then ((b - r) / d + 2) / 6
                     else ((r - g) / d + 4) / 6)
            in (h * 360, s, l)))"

definition hue2rgb :: "real \<Rightarrow> real \<Rightarrow> real \<Rightarrow> real" where
  "hue2rgb p q t0 =
     (let t1 = (if t0 < 0 then t0 + 1 else t0);
          t = (if t1 > 1 then t1 - 1 else t1)
      in if t < 1 / 6 then p + (q - p) * 6 * t
         else if t < 1 / 2 then q
         else if t < 2 / 3 then p + (q - p) * (2 / 3 - t) * 6
         else p)"

definition hslToRgb :: "real \<Rightarrow> real \<Rightarrow> real \<Rightarrow> int \<times> int \<times> int" where
  "hslToRgb h0 s l =
     (let h = h0 / 360
      in if s = 0 then (let v = js_round (l * 255) in (v, v, v))
         else
           (let q = (if l < 0.5 then l * (1 + s) else l + s - l * s);
                p = 2 * l - q
            in (js_round (hue2rgb p q (h + 1 / 3) * 255),
                js_round (hue2rgb p q h * 255),
                js_round (hue2rgb p q (h - 1 / 3) * 255))))"

subsection \<open>color.js: convenience wrappers\<close>

text \<open>
  A \<^verbatim>\<open>NaN\<close> channel makes every sum of \<^verbatim>\<open>rgbToOklch\<close> \<^verbatim>\<open>NaN\<close>, so all three of
  its results are \<^verbatim>\<open>NaN\<close>: the wrapper returns \<^term>\<open>None\<close> for the triple.
\<close>

definition hexToOklch :: "string \<Rightarrow> (real \<times> real \<times> real) option" where
  "hexToOklch hex =
     (case hexToRgb hex of
        (Some r, Some g, Some b) \<Rightarrow>
          Some (rgbToOklch (real_of_int r) (real_of_int g) (real_of_int b))
      | _ \<Rightarrow> None)"

definition oklchToHex :: "real \<Rightarrow> real \<Rightarrow> real \<Rightarrow> string" where
  "oklchToHex L C H =
     (case oklchToRgb L C H of (r, g, b) \<Rightarrow> rgbToHex (Some r) (Some g) (Some b))"

definition hslToHex :: "real \<Rightarrow> real \<Rightarrow> real \<Rightarrow> string" where
  "hslToHex h s l =
     (case hslToRgb h s l of
        (r, g, b) \<Rightarrow> rgbToHex (Some (real_of_int r)) (Some (real_of_int g)) (Some (real_of_int b)))"

subsection \<open>shades.js\<close>

definition SHADES :: "nat list" where
  "SHADES = [50, 100, 200, 300, 400, 500, 600, 700, 800, 900, 950]"

definition LIGHTER_T :: "nat \<rightharpoonup> real" where
  "LIGHTER_T = map_of [(50, 0.92), (100, 0.80), (200, 0.62), (300, 0.42), (400, 0.18)]"

definition DARKER_T :: "nat \<rightharpoonup> real" where
  "DARKER_T = map_of [(600, 0.18), (700, 0.38), (800, 0.56), (900, 0.76), (950, 0.92)]"

definition LIGHT_END :: real where
  "LIGHT_END = 0.98"

definition DARK_END :: real where
  "DARK_END = 0.10"

text \<open>
  The body of the callback of \<^verbatim>\<open>generateShades\<close> for a level other than 500: the
  lightness \<open>L\<close> and the chroma \<open>baseC * Math.max(0, cScale)\<close> that it hands to
  \<^verbatim>\<open>oklchToHex\<close>. A level missing from its table reads \<^verbatim>\<open>undefined\<close>, and both
  numbers are \<^verbatim>\<open>NaN\<close>.
\<close>

definition shade_oklch :: "real \<Rightarrow> real \<Rightarrow> nat \<Rightarrow> (real \<times> real) option" where
  "shade_oklch baseL baseC shade =
     (if shade < 500
      then (case LIGHTER_T shade of
              None \<Rightarrow> None
            | Some t \<Rightarrow> Some (baseL + (LIGHT_END - baseL) * t, baseC * max 0 (1 - t * 0.95)))
      else (case DARKER_T shade of
              None \<Rightarrow> None
            | Some t \<Rightarrow> Some (baseL - (baseL - DARK_END) * t, baseC * max 0 (1 - t * 0.65))))"

definition generateShades :: "string \<Rightarrow> (nat \<times> string) list" where
  "generateShades hex =
     (let base = hexToOklch hex
      in map (\<lambda>shade.
           if shade = 500 then (shade, hex)
           else (shade,
                 case base of
                   None \<Rightarrow> rgbToHex None None None
                 | Some (baseL, baseC, baseH) \<Rightarrow>
                     (case shade_oklch baseL baseC shade of
                        None \<Rightarrow> rgbToHex None None None
                      | Some (L, C) \<Rightarrow> oklchToHex L C baseH))) SHADES)"

text \<open>
  The lightness of the ramp entry at a level: the base colour's own at level 500, which is
  returned untouched, and the first of the pair of \<^const>\<open>shade_oklch\<close> elsewhere.
\<close>

definition shade_lightness :: "real \<Rightarrow> real \<Rightarrow> nat \<Rightarrow> real option" where
  "shade_lightness baseL baseC shade =
     (if shade = 500 then Some baseL else map_option fst (shade_oklch baseL baseC shade))"

subsection \<open>strategies.js\<close>

text \<open>
  The errors the module can throw. An array holds at most \<open>2\<^sup>3\<^sup>2 - 1\<close> elements:
  \<^verbatim>\<open>Array.from({ length: count }, ...)\<close> throws a \<^verbatim>\<open>RangeError\<close> for a count of
  \<open>2\<^sup>3\<^sup>2\<close> or more, and so does \<^verbatim>\<open>push\<close> on an array that is full. Running out of
  memory below that length is not modelled.
\<close>

datatype js_error = TypeError | RangeError

definition norm_hue :: "real \<Rightarrow> real" where
  "norm_hue h = js_rem (js_rem h 360 + 360) 360"

text \<open>\<^verbatim>\<open>xs.slice(0, e)\<close>: a negative end counts from the end of the array.\<close>

definition slice0 :: "'a list \<Rightarrow> int \<Rightarrow> 'a list" where
  "slice0 xs e = (if e < 0 then take (length xs - nat (- e)) xs else take (nat e) xs)"

text \<open>
  The \<^verbatim>\<open>for\<close> loop of \<^verbatim>\<open>fromKeyAngles\<close>, from index \<open>i\<close>. The inner test is
  \<^verbatim>\<open>hues.push\<close>, which throws on an array of \<open>2\<^sup>3\<^sup>2 - 1\<close> elements.
\<close>

function fromKeyAngles_loop ::
  "real \<Rightarrow> int \<Rightarrow> real \<Rightarrow> nat \<Rightarrow> real list \<Rightarrow> js_error + real list" where
  "fromKeyAngles_loop anchor count step i hues =
     (if int i < count
      then (if int (length hues) < 4294967295
            then fromKeyAngles_loop anchor count step (i + 1)
                   (hues @ [norm_hue (anchor + real i * step)])
            else Inl RangeError)
      else Inr hues)"
  by pat_completeness auto
termination
  by (relation "measure (\<lambda>(anchor, count, step, i, hues). nat (count - int i))") auto

text \<open>
  In \<^verbatim>\<open>360 / count\<close> a zero count gives \<^verbatim>\<open>Infinity\<close> in the source and \<open>0\<close> here; the
  step is then never used, since no index is below the count.
\<close>

definition fromKeyAngles :: "real \<Rightarrow> int \<Rightarrow> real list \<Rightarrow> js_error + real list" where
  "fromKeyAngles anchor count keyAngles =
     (let hues = map (\<lambda>a. norm_hue (anchor + a)) (slice0 keyAngles count);
          step = 360 / real_of_int count
      in fromKeyAngles_loop anchor count step (length hues) hues)"

text \<open>
  \<^verbatim>\<open>Array.from({ length: count }, ...)\<close>: a length below 0 counts as 0, and a length of
  \<open>2\<^sup>3\<^sup>2\<close> or more is refused before any element is computed.
\<close>

definition evenly_spaced :: "real \<Rightarrow> int \<Rightarrow> js_error + real list" where
  "evenly_spaced anchor count =
     (let step = 360 / real_of_int count
      in if 4294967296 \<le> count then Inl RangeError
         else Inr (map (\<lambda>i. norm_hue (anchor + real i * step)) [0..<nat count]))"

text \<open>
  The \<^verbatim>\<open>for\<close> loop of \<^verbatim>\<open>analogous\<close>, whose step is 30, with the same test at each
  of its two calls of \<^verbatim>\<open>hues.push\<close>.
\<close>

function analogous_loop :: "real \<Rightarrow> int \<Rightarrow> nat \<Rightarrow> real list \<Rightarrow> js_error + real list" where
  "analogous_loop anchor count i hues =
     (if int (length hues) < count
      then (if int (length hues) < 4294967295
            then (let hues1 = hues @ [norm_hue (anchor + real i * 30)]
                  in if int (length hues1) < count
                     then (if int (length hues1) < 4294967295
                           then analogous_loop anchor count (i + 1)
                                  (hues1 @ [norm_hue (anchor - real i * 30)])
                           else Inl RangeError)
                     else analogous_loop anchor count (i + 1) hues1)
            else Inl RangeError)
      else Inr hues)"
  by pat_completeness auto
termination
  by (relation "measure (\<lambda>(anchor, count, i, hues). nat (count - int (length hues)))") auto

definition analogous :: "real \<Rightarrow> int \<Rightarrow> js_error + real list" where
  "analogous anchor count = analogous_loop anchor count 1 [anchor]"

definition complementary :: "real \<Rightarrow> int \<Rightarrow> js_error + real list" where
  "complementary anchor count = fromKeyAngles anchor count [0, 180]"

definition split_complementary :: "real \<Rightarrow> int \<Rightarrow> js_error + real list" where
  "split_complementary anchor count = fromKeyAngles anchor count [0, 150, 210]"

definition triadic :: "real \<Rightarrow> int \<Rightarrow> js_error + real list" where
  "triadic anchor count = fromKeyAngles anchor count [0, 120, 240]"

definition tetradic :: "real \<Rightarrow> int \<Rightarrow> js_error + real list" where
  "tetradic anchor count = fromKeyAngles anchor count [0, 90, 180, 270]"

text \<open>The object \<^verbatim>\<open>strategies\<close>: its own properties, in the order they are written.\<close>

definition strategies :: "(string \<times> (real \<Rightarrow> int \<Rightarrow> js_error + real list)) list" where
  "strategies =
     [(''evenly-spaced'', evenly_spaced),
      (''analogous'', analogous),
      (''complementary'', complementary),
      (''split-complementary'', split_complementary),
      (''triadic'', triadic),
      (''tetradic'', tetradic)]"

definition STRATEGY_NAMES :: "string list" where
  "STRATEGY_NAMES = map fst strategies"

text \<open>
  \<^verbatim>\<open>strategies[strategy]\<close> is a property read on an object literal, so a name that is
  not an own property is looked up on \<^verbatim>\<open>Object.prototype\<close>. The module is strict code
  and \<^verbatim>\<open>fn(anchorHue, count)\<close> is a plain call, so an inherited function runs with
  \<^verbatim>\<open>this\<close> undefined and a number as its first argument:
  \<^item> \<^verbatim>\<open>constructor\<close> is \<^verbatim>\<open>Object\<close>, which wraps the number;
  \<^item> \<^verbatim>\<open>toString\<close> returns \<^verbatim>\<open>"[object Undefined]"\<close>;
  \<^item> \<^verbatim>\<open>isPrototypeOf\<close> returns \<^verbatim>\<open>false\<close> for an argument that is not an object;
  \<^item> the others convert \<^verbatim>\<open>this\<close> to an object first and throw a \<^verbatim>\<open>TypeError\<close>;
  \<^item> \<^verbatim>\<open>__proto__\<close> reads as \<^verbatim>\<open>Object.prototype\<close> itself, an object that cannot
    be called.
\<close>

datatype js_value = Hues "real list" | JsString string | JsBoolean bool | NumberObject real

datatype property = Callable "real \<Rightarrow> int \<Rightarrow> js_error + js_value" | NotCallable

definition object_prototype :: "(string \<times> property) list" where
  "object_prototype =
     [(''constructor'', Callable (\<lambda>anchorHue count. Inr (NumberObject anchorHue))),
      (''hasOwnProperty'', Callable (\<lambda>anchorHue count. Inl TypeError)),
      (''isPrototypeOf'', Callable (\<lambda>anchorHue count. Inr (JsBoolean False))),
      (''propertyIsEnumerable'', Callable (\<lambda>anchorHue count. Inl TypeError)),
      (''toLocaleString'', Callable (\<lambda>anchorHue count. Inl TypeError)),
      (''toString'', Callable (\<lambda>anchorHue count. Inr (JsString ''[object Undefined]''))),
      (''valueOf'', Callable (\<lambda>anchorHue count. Inl TypeError)),
      (''__proto__'', NotCallable),
      (''__defineGetter__'', Callable (\<lambda>anchorHue count. Inl TypeError)),
      (''__defineSetter__'', Callable (\<lambda>anchorHue count. Inl TypeError)),
      (''__lookupGetter__'', Callable (\<lambda>anchorHue count. Inl TypeError)),
      (''__lookupSetter__'', Callable (\<lambda>anchorHue count. Inl TypeError))]"

text \<open>An own strategy returns its array of hues, or throws what its body throws.\<close>

definition own_strategy :: "(real \<Rightarrow> int \<Rightarrow> js_error + real list) \<Rightarrow> property" where
  "own_strategy f = Callable (\<lambda>anchorHue count. map_sum id Hues (f anchorHue count))"

definition get_strategy :: "string \<Rightarrow> property option" where
  "get_strategy name =
     (case map_of strategies name of
        Some f \<Rightarrow> Some (own_strategy f)
      | None \<Rightarrow> map_of object_prototype name)"

text \<open>
  \<^verbatim>\<open>generateHues\<close>: every property found is truthy, so \<^verbatim>\<open>||\<close> takes the fallback
  only when the name is found nowhere.
\<close>

definition generateHues :: "real \<Rightarrow> int \<Rightarrow> string \<Rightarrow> js_error + js_value" where
  "generateHues anchorHue count strategy =
     (let fn = (case get_strategy strategy of
                  Some p \<Rightarrow> p
                | None \<Rightarrow> own_strategy evenly_spaced)
      in case fn of
           Callable f \<Rightarrow> f anchorHue count
         | NotCallable \<Rightarrow> Inl TypeError)"

subsection \<open>cli.js: gap filling and the validator\<close>

text \<open>
  The inner loop of \<^verbatim>\<open>fillLargestGaps\<close> from index \<open>i\<close>, with the pair
  \<open>(maxGap, bestMid)\<close> as its state. Every index it reads is below the length.
\<close>

function gap_scan :: "real list \<Rightarrow> nat \<Rightarrow> real \<times> real \<Rightarrow> real \<times> real" where
  "gap_scan sortedHues i (maxGap, bestMid) =
     (if i < length sortedHues
      then (let next = sortedHues ! ((i + 1) mod length sortedHues);
                gap = (if i + 1 < length sortedHues then next - sortedHues ! i
                       else 360 - sortedHues ! i + sortedHues ! 0)
            in gap_scan sortedHues (i + 1)
                 (if gap > maxGap then (gap, js_rem (sortedHues ! i + gap / 2) 360)
                  else (maxGap, bestMid)))
      else (maxGap, bestMid))"
  by pat_completeness auto
termination
  by (relation "measure (\<lambda>(sortedHues, i, st). length sortedHues - i)") auto

text \<open>The outer loop, with the working set \<open>hues\<close> and the \<open>result\<close> so far.\<close>

function fillLargestGaps_loop :: "real list \<Rightarrow> real list \<Rightarrow> int \<Rightarrow> nat \<Rightarrow> real list" where
  "fillLargestGaps_loop hues result needed n =
     (if int n < needed
      then (let sortedHues = sort hues;
                bestMid = snd (gap_scan sortedHues 0 (0, 0))
            in fillLargestGaps_loop (hues @ [bestMid]) (result @ [bestMid]) needed (n + 1))
      else result)"
  by pat_completeness auto
termination
  by (relation "measure (\<lambda>(hues, result, needed, n). nat (needed - int n))") auto

definition fillLargestGaps :: "real list \<Rightarrow> int \<Rightarrow> real list" where
  "fillLargestGaps existingHues needed = fillLargestGaps_loop existingHues [] needed 0"

text \<open>
  The circular gaps of a sorted list of hues, for stating what the scan finds: gap \<open>i\<close> runs
  from hue \<open>i\<close> to the next one, and the last gap wraps around from the last hue to the
  first.
\<close>

definition circular_gaps :: "real list \<Rightarrow> real list" where
  "circular_gaps s =
     map (\<lambda>i. if i + 1 < length s then s ! (i + 1) - s ! i else 360 - s ! i + s ! 0)
       [0..<length s]"

text \<open>\<^verbatim>\<open>isValidHex\<close>: a \<^verbatim>\<open>#\<close> and then three or six hexadecimal digits.\<close>

definition isValidHex :: "string \<Rightarrow> bool" where
  "isValidHex hex =
     (case hex of
        [] \<Rightarrow> False
      | c # ds \<Rightarrow> c = CHR ''#'' \<and> (length ds = 3 \<or> length ds = 6)
                  \<and> list_all (\<lambda>d. hexDigit d \<noteq> None) ds)"

declare toString16_nat.simps [simp del]
declare fromKeyAngles_loop.simps [simp del]
declare analogous_loop.simps [simp del]
declare gap_scan.simps [simp del]
declare fillLargestGaps_loop.simps [simp del]

section \<open>Properties\<close>

subsection \<open>Hue normalisation\<close>

lemma js_rem_360_bounds: "- 360 < js_rem h 360 \<and> js_rem h 360 < 360"
  unfolding js_rem_def trunc_def by (auto; linarith)

lemma js_rem_360_nonneg: "0 \<le> x \<Longrightarrow> 0 \<le> js_rem x 360 \<and> js_rem x 360 < 360"
  unfolding js_rem_def trunc_def by (auto; linarith)

lemma norm_hue_range: "0 \<le> norm_hue h \<and> norm_hue h < 360"
  unfolding norm_hue_def
  using js_rem_360_bounds [of h] js_rem_360_nonneg [of "js_rem h 360 + 360"] by auto

subsection \<open>Hue strategies\<close>

text \<open>
  Every hue that \<^verbatim>\<open>evenly-spaced\<close> and \<^verbatim>\<open>fromKeyAngles\<close> return went through
  \<^const>\<open>norm_hue\<close>, index 0 included. \<^verbatim>\<open>analogous\<close> starts its list with the anchor as
  it was passed and normalises only the hues it adds.
\<close>

lemma evenly_spaced_range:
  "evenly_spaced anchor count = Inr hs \<Longrightarrow> h \<in> set hs \<Longrightarrow> 0 \<le> h \<and> h < 360"
  by (auto simp: evenly_spaced_def Let_def norm_hue_range split: if_splits)

lemma fromKeyAngles_loop_range:
  "(\<And>h. h \<in> set hues \<Longrightarrow> 0 \<le> h \<and> h < 360) \<Longrightarrow>
   fromKeyAngles_loop anchor count step i hues = Inr hs \<Longrightarrow>
   h \<in> set hs \<Longrightarrow> 0 \<le> h \<and> h < 360"
proof (induction anchor count step i hues rule: fromKeyAngles_loop.induct)
  case (1 anchor count step i hues)
  show ?case
  proof (cases "int i < count")
    case True
    have room: "int (length hues) < 4294967295"
      using "1.prems"(2) True by (subst (asm) fromKeyAngles_loop.simps) (simp split: if_splits)
    have "fromKeyAngles_loop anchor count step (i + 1)
            (hues @ [norm_hue (anchor + real i * step)]) = Inr hs"
      using "1.prems"(2) True room by (subst (asm) fromKeyAngles_loop.simps) simp
    moreover have "\<And>x. x \<in> set (hues @ [norm_hue (anchor + real i * step)]) \<Longrightarrow> 0 \<le> x \<and> x < 360"
      using "1.prems"(1) norm_hue_range by auto
    ultimately show ?thesis using "1.IH" [OF True room] "1.prems"(3) by blast
  next
    case False
    then have "hs = hues"
      using "1.prems"(2) by (subst (asm) fromKeyAngles_loop.simps) simp
    then show ?thesis using "1.prems"(1,3) by simp
  qed
qed

lemma fromKeyAngles_range:
  assumes "fromKeyAngles anchor count keyAngles = Inr hs" and "h \<in> set hs"
  shows "0 \<le> h \<and> h < 360"
proof (rule fromKeyAngles_loop_range [OF _ _ assms(2)])
  show "fromKeyAngles_loop anchor count (360 / real_of_int count)
          (length (map (\<lambda>a. norm_hue (anchor + a)) (slice0 keyAngles count)))
          (map (\<lambda>a. norm_hue (anchor + a)) (slice0 keyAngles count)) = Inr hs"
    using assms(1) by (simp add: fromKeyAngles_def Let_def)
  show "\<And>x. x \<in> set (map (\<lambda>a. norm_hue (anchor + a)) (slice0 keyAngles count)) \<Longrightarrow>
          0 \<le> x \<and> x < 360"
    by (auto simp: norm_hue_range)
qed

lemma analogous_loop_shape:
  "analogous_loop anchor count i hues = Inr hs \<Longrightarrow>
   \<exists>more. hs = hues @ more \<and> (\<forall>h \<in> set more. 0 \<le> h \<and> h < 360)"
proof (induction anchor count i hues rule: analogous_loop.induct)
  case (1 anchor count i hues)
  show ?case
  proof (cases "int (length hues) < count")
    case True
    define hues1 where "hues1 = hues @ [norm_hue (anchor + real i * 30)]"
    have room: "int (length hues) < 4294967295"
      using "1.prems" True by (subst (asm) analogous_loop.simps) (simp split: if_splits)
    show ?thesis
    proof (cases "int (length hues1) < count")
      case more_room: True
      have room1: "int (length hues1) < 4294967295"
        using "1.prems" True room more_room
        by (subst (asm) analogous_loop.simps) (simp add: hues1_def Let_def split: if_splits)
      have "analogous_loop anchor count (i + 1) (hues1 @ [norm_hue (anchor - real i * 30)]) = Inr hs"
        using "1.prems" True room more_room room1
        by (subst (asm) analogous_loop.simps) (simp add: hues1_def Let_def)
      then obtain more where "hs = (hues1 @ [norm_hue (anchor - real i * 30)]) @ more"
        "\<forall>h \<in> set more. 0 \<le> h \<and> h < 360"
        using "1.IH"(1) [OF True room hues1_def more_room room1] by blast
      then show ?thesis
        using norm_hue_range
        by (intro exI [of _ "[norm_hue (anchor + real i * 30), norm_hue (anchor - real i * 30)] @ more"])
          (auto simp: hues1_def)
    next
      case False
      have "analogous_loop anchor count (i + 1) hues1 = Inr hs"
        using "1.prems" True room False
        by (subst (asm) analogous_loop.simps) (simp add: hues1_def Let_def)
      then obtain more where "hs = hues1 @ more" "\<forall>h \<in> set more. 0 \<le> h \<and> h < 360"
        using "1.IH"(2) [OF True room hues1_def False] by blast
      then show ?thesis
        using norm_hue_range
        by (intro exI [of _ "[norm_hue (anchor + real i * 30)] @ more"]) (auto simp: hues1_def)
    qed
  next
    case False
    then have "hs = hues"
      using "1.prems" by (subst (asm) analogous_loop.simps) simp
    then show ?thesis by simp
  qed
qed

lemma analogous_shape:
  "analogous anchor count = Inr hs \<Longrightarrow>
   \<exists>more. hs = anchor # more \<and> (\<forall>h \<in> set more. 0 \<le> h \<and> h < 360)"
  using analogous_loop_shape [of anchor count 1 "[anchor]" hs] by (simp add: analogous_def)

text \<open>
  Claim C4 (hue range): for every anchor angle, strategy name and count \<open>\<ge> 1\<close>, every hue
  that \<^verbatim>\<open>generateHues\<close> returns lies in \<open>[0, 360)\<close>. The code breaks it in
  \<^verbatim>\<open>analogous\<close>: the first hue is the anchor itself, so an anchor of 400 or of -30 is
  returned as it is, where the sibling strategies return \<open>norm(anchor + 0)\<close>.
\<close>

theorem analogous_first_hue_raw:
  "generateHues 400 3 ''analogous'' = Inr (Hues [400, 70, 10])
   \<and> generateHues (- 30) 1 ''analogous'' = Inr (Hues [- 30])"
  by code_simp

text \<open>
  The fallback of \<^verbatim>\<open>generateHues\<close> is taken for a name that is neither an own property
  of \<^verbatim>\<open>strategies\<close> nor a property of \<^verbatim>\<open>Object.prototype\<close>.
\<close>

lemma generateHues_fallback:
  assumes "name \<notin> set STRATEGY_NAMES" and "name \<notin> fst ` set object_prototype"
  shows "generateHues anchorHue count name = map_sum id Hues (evenly_spaced anchorHue count)"
proof -
  have "map_of strategies name = None"
    using assms(1) by (simp add: STRATEGY_NAMES_def map_of_eq_None_iff)
  moreover have "map_of object_prototype name = None"
    using assms(2) by (simp add: map_of_eq_None_iff)
  ultimately show ?thesis
    by (simp add: generateHues_def get_strategy_def own_strategy_def)
qed

text \<open>
  Claim C7 (unknown-strategy fallback): for every strategy name that is not one of the six
  known names, \<^verbatim>\<open>generateHues\<close> returns what \<^verbatim>\<open>evenly-spaced\<close> returns, without
  failing. The code breaks it for a name inherited from \<^verbatim>\<open>Object.prototype\<close>:
  \<^verbatim>\<open>toString\<close> is found and called, and the result is a string; \<^verbatim>\<open>__proto__\<close> is
  found and is not a function, and the call throws.
\<close>

theorem inherited_name_is_no_fallback:
  "generateHues 0 3 ''toString'' = Inr (JsString ''[object Undefined]'')
   \<and> generateHues 0 3 ''__proto__'' = Inl TypeError
   \<and> generateHues 0 3 ''evenly-spaced'' = Inr (Hues [0, 120, 240])"
  by code_simp

lemma generateHues_known:
  "generateHues anchorHue count ''evenly-spaced'' = map_sum id Hues (evenly_spaced anchorHue count)"
  "generateHues anchorHue count ''analogous'' = map_sum id Hues (analogous anchorHue count)"
  "generateHues anchorHue count ''complementary'' = map_sum id Hues (complementary anchorHue count)"
  "generateHues anchorHue count ''split-complementary'' =
     map_sum id Hues (split_complementary anchorHue count)"
  "generateHues anchorHue count ''triadic'' = map_sum id Hues (triadic anchorHue count)"
  "generateHues anchorHue count ''tetradic'' = map_sum id Hues (tetradic anchorHue count)"
  by (simp_all add: generateHues_def get_strategy_def strategies_def own_strategy_def)

text \<open>
  A count of \<open>2\<^sup>3\<^sup>2\<close> or more is an error of \<^verbatim>\<open>evenly-spaced\<close>, and so of the fallback.
\<close>

lemma evenly_spaced_RangeError:
  "4294967296 \<le> count \<Longrightarrow> generateHues anchor count ''evenly-spaced'' = Inl RangeError"
  by (simp add: generateHues_known evenly_spaced_def)

text \<open>With a count of at most 1 no strategy enters a loop, and none fills an array.\<close>

lemma evenly_spaced_degenerate:
  "count \<le> 1 \<Longrightarrow>
   evenly_spaced anchor count = Inr (if count = 1 then [norm_hue anchor] else [])"
  by (auto simp: evenly_spaced_def)

lemma analogous_degenerate: "count \<le> 1 \<Longrightarrow> analogous anchor count = Inr [anchor]"
  unfolding analogous_def by (subst analogous_loop.simps) simp

lemma fromKeyAngles_degenerate:
  assumes "count \<le> 1" and "keyAngles \<noteq> []"
  shows "fromKeyAngles anchor count keyAngles =
           Inr (map (\<lambda>a. norm_hue (anchor + a)) (slice0 keyAngles count))"
proof -
  have "\<not> int (length (slice0 keyAngles count)) < count"
  proof (cases "count = 1")
    case True
    then show ?thesis using assms(2) by (cases keyAngles) (simp_all add: slice0_def)
  next
    case False
    then show ?thesis using assms(1) by simp
  qed
  then show ?thesis
    unfolding fromKeyAngles_def Let_def by (subst fromKeyAngles_loop.simps) simp
qed

lemma generateHues_degenerate:
  assumes "count \<le> 1" and "name \<notin> fst ` set object_prototype"
  shows "\<exists>hs. generateHues anchorHue count name = Inr (Hues hs)"
proof (cases "name \<in> set STRATEGY_NAMES")
  case True
  then show ?thesis
    using assms(1)
    by (auto simp: STRATEGY_NAMES_def strategies_def generateHues_known evenly_spaced_degenerate
        analogous_degenerate fromKeyAngles_degenerate complementary_def split_complementary_def
        triadic_def tetradic_def)
next
  case False
  then show ?thesis
    using generateHues_fallback [OF False assms(2)] assms(1)
    by (simp add: evenly_spaced_degenerate)
qed

lemma norm_hue_id:
  assumes "0 \<le> h" and "h < 360"
  shows "norm_hue h = h"
proof -
  have "\<lfloor>h / 360\<rfloor> = 0"
    using assms by (simp add: floor_eq_iff)
  then have inner: "js_rem h 360 = h"
    using assms by (simp add: js_rem_def trunc_def)
  have "\<lfloor>(h + 360) / 360\<rfloor> = 1"
    using assms by (simp add: floor_eq_iff)
  then have "js_rem (h + 360) 360 = h"
    using assms by (simp add: js_rem_def trunc_def)
  then show ?thesis
    by (simp add: norm_hue_def inner)
qed

text \<open>
  Claim C8 as stated (a count \<open>\<le> 0\<close> fails with \<^verbatim>\<open>InvalidCount\<close>) does not hold: the code
  has no such error. With count 0 \<^verbatim>\<open>evenly-spaced\<close> returns the empty list, and with
  count -1 \<^verbatim>\<open>triadic\<close> returns the first two key angles, since
  \<^verbatim>\<open>slice(0, -1)\<close> drops the last one.
\<close>

theorem count_zero_is_no_error:
  "generateHues 0 0 ''evenly-spaced'' = Inr (Hues [])
   \<and> (\<forall>e. generateHues 0 0 ''evenly-spaced'' \<noteq> Inl e)
   \<and> generateHues 0 (- 1) ''triadic'' = Inr (Hues [0, 120])"
proof -
  have a: "generateHues 0 0 ''evenly-spaced'' = Inr (Hues [])"
    by code_simp
  have b: "generateHues 0 (- 1) ''triadic'' = Inr (Hues [0, 120])"
    by code_simp
  show ?thesis
    by (simp add: a b)
qed

text \<open>
  Claim C8, amended (degenerate counts): with a count of at most 1, that is 0, 1 or a
  negative count, \<^verbatim>\<open>generateHues\<close> raises no error and returns a list of hues, for every
  strategy name that is not inherited from \<^verbatim>\<open>Object.prototype\<close>; \<^verbatim>\<open>evenly-spaced\<close> with
  count 1 returns the single hue \<open>norm(anchor)\<close>, which is the anchor when it lies in
  \<open>[0, 360)\<close>; and with a count \<open>\<le> 0\<close> \<^verbatim>\<open>evenly-spaced\<close> returns the empty list, where the
  claim asks for an \<^verbatim>\<open>InvalidCount\<close> error.
\<close>

theorem degenerate_counts:
  "(count \<le> 1 \<and> name \<notin> fst ` set object_prototype \<longrightarrow>
      (\<exists>hs. generateHues anchor count name = Inr (Hues hs)))
   \<and> generateHues anchor 1 ''evenly-spaced'' = Inr (Hues [norm_hue anchor])
   \<and> (0 \<le> anchor \<and> anchor < 360 \<longrightarrow> generateHues anchor 1 ''evenly-spaced'' = Inr (Hues [anchor]))
   \<and> (count \<le> 0 \<longrightarrow> generateHues anchor count ''evenly-spaced'' = Inr (Hues []))"
  using generateHues_degenerate [of count name anchor]
  by (auto simp: generateHues_known evenly_spaced_degenerate norm_hue_id)

theorem degenerate_counts_witness:
  "(\<exists>hs. generateHues 30 0 ''triadic'' = Inr (Hues hs))
   \<and> (\<exists>hs. generateHues 30 1 ''analogous'' = Inr (Hues hs))
   \<and> generateHues 30 1 ''evenly-spaced'' = Inr (Hues [30])
   \<and> generateHues 30 (- 2) ''evenly-spaced'' = Inr (Hues [])"
  using degenerate_counts [of 0 "''triadic''" 30] degenerate_counts [of 1 "''analogous''" 30]
    degenerate_counts [of "- 2" "''triadic''" 30]
  by (simp add: object_prototype_def)

subsection \<open>Gap filling\<close>

lemma circular_gaps_nth:
  "i < length s \<Longrightarrow> circular_gaps s ! i =
     (if i + 1 < length s then s ! (i + 1) - s ! i else 360 - s ! i + s ! 0)"
  by (simp add: circular_gaps_def)

lemma gap_scan_step:
  "i < length s \<Longrightarrow>
   gap_scan s i (mg, bm) =
     gap_scan s (i + 1)
       (if circular_gaps s ! i > mg
        then (circular_gaps s ! i, js_rem (s ! i + circular_gaps s ! i / 2) 360)
        else (mg, bm))"
  by (subst gap_scan.simps) (auto simp: circular_gaps_nth Let_def mod_Suc)

lemma gap_scan_done: "length s \<le> i \<Longrightarrow> gap_scan s i (mg, bm) = (mg, bm)"
  by (subst gap_scan.simps) simp

lemma gap_scan_none:
  "(\<And>k. i \<le> k \<Longrightarrow> k < length s \<Longrightarrow> circular_gaps s ! k \<le> mg) \<Longrightarrow>
   gap_scan s i (mg, bm) = (mg, bm)"
proof (induction "length s - i" arbitrary: i)
  case 0
  then show ?case by (simp add: gap_scan_done)
next
  case (Suc d)
  then have i: "i < length s" by simp
  have "circular_gaps s ! i \<le> mg" using Suc.prems i by simp
  then have "gap_scan s i (mg, bm) = gap_scan s (i + 1) (mg, bm)"
    using gap_scan_step [OF i] by simp
  also have "\<dots> = (mg, bm)"
    using Suc.hyps(1) [of "i + 1"] Suc.hyps(2) Suc.prems by simp
  finally show ?case .
qed

lemma gap_scan_first_max:
  assumes "i \<le> k" "k < length s" "mg < circular_gaps s ! k"
  shows "\<exists>k. i \<le> k \<and> k < length s \<and> mg < circular_gaps s ! k
            \<and> (\<forall>j. i \<le> j \<and> j < length s \<longrightarrow> circular_gaps s ! j \<le> circular_gaps s ! k)
            \<and> (\<forall>j. i \<le> j \<and> j < k \<longrightarrow> circular_gaps s ! j < circular_gaps s ! k)
            \<and> gap_scan s i (mg, bm) =
                (circular_gaps s ! k, js_rem (s ! k + circular_gaps s ! k / 2) 360)"
  using assms
proof (induction "length s - i" arbitrary: i mg bm k)
  case 0
  then show ?case by simp
next
  case (Suc d)
  let ?g = "circular_gaps s"
  have i: "i < length s" using Suc.prems by simp
  show ?case
  proof (cases "mg < ?g ! i")
    case True
    have step: "gap_scan s i (mg, bm) = gap_scan s (i + 1) (?g ! i, js_rem (s ! i + ?g ! i / 2) 360)"
      using gap_scan_step [OF i] True by simp
    show ?thesis
    proof (cases "\<exists>k'. i + 1 \<le> k' \<and> k' < length s \<and> ?g ! i < ?g ! k'")
      case True
      then obtain k' where k': "i + 1 \<le> k'" "k' < length s" "?g ! i < ?g ! k'" by blast
      have d: "d = length s - (i + 1)" using Suc.hyps(2) by simp
      from Suc.hyps(1) [OF d k'(1) k'(2) k'(3), of "js_rem (s ! i + ?g ! i / 2) 360"]
      obtain m where m: "i + 1 \<le> m" "m < length s" "?g ! i < ?g ! m"
        "\<forall>j. i + 1 \<le> j \<and> j < length s \<longrightarrow> ?g ! j \<le> ?g ! m"
        "\<forall>j. i + 1 \<le> j \<and> j < m \<longrightarrow> ?g ! j < ?g ! m"
        "gap_scan s (i + 1) (?g ! i, js_rem (s ! i + ?g ! i / 2) 360) =
           (?g ! m, js_rem (s ! m + ?g ! m / 2) 360)"
        by auto
      have a: "\<forall>j. i \<le> j \<and> j < length s \<longrightarrow> ?g ! j \<le> ?g ! m"
      proof (intro allI impI)
        fix j assume "i \<le> j \<and> j < length s"
        then show "?g ! j \<le> ?g ! m" using m(3,4) by (cases "j = i") auto
      qed
      have b: "\<forall>j. i \<le> j \<and> j < m \<longrightarrow> ?g ! j < ?g ! m"
      proof (intro allI impI)
        fix j assume "i \<le> j \<and> j < m"
        then show "?g ! j < ?g ! m" using m(3,5) by (cases "j = i") auto
      qed
      show ?thesis
        by (rule exI [of _ m]) (use m \<open>mg < ?g ! i\<close> a b step in auto)
    next
      case False
      then have later: "\<And>k'. i + 1 \<le> k' \<Longrightarrow> k' < length s \<Longrightarrow> ?g ! k' \<le> ?g ! i"
        by (meson not_le_imp_less)
      then have "gap_scan s (i + 1) (?g ! i, js_rem (s ! i + ?g ! i / 2) 360) =
          (?g ! i, js_rem (s ! i + ?g ! i / 2) 360)"
        by (rule gap_scan_none)
      moreover have "\<forall>j. i \<le> j \<and> j < length s \<longrightarrow> ?g ! j \<le> ?g ! i"
      proof (intro allI impI)
        fix j assume "i \<le> j \<and> j < length s"
        then show "?g ! j \<le> ?g ! i" using later [of j] by (cases "j = i") auto
      qed
      ultimately show ?thesis
        by (intro exI [of _ i]) (use i True step in auto)
    qed
  next
    case False
    have step: "gap_scan s i (mg, bm) = gap_scan s (i + 1) (mg, bm)"
      using gap_scan_step [OF i] False by simp
    have "k \<noteq> i" using False Suc.prems by auto
    then have k: "i + 1 \<le> k" using Suc.prems by simp
    have d: "d = length s - (i + 1)" using Suc.hyps(2) by simp
    from Suc.hyps(1) [OF d k Suc.prems(2) Suc.prems(3), of bm]
    obtain m where m: "i + 1 \<le> m" "m < length s" "mg < ?g ! m"
        "\<forall>j. i + 1 \<le> j \<and> j < length s \<longrightarrow> ?g ! j \<le> ?g ! m"
        "\<forall>j. i + 1 \<le> j \<and> j < m \<longrightarrow> ?g ! j < ?g ! m"
        "gap_scan s (i + 1) (mg, bm) = (?g ! m, js_rem (s ! m + ?g ! m / 2) 360)"
      by auto
    have gi: "?g ! i < ?g ! m" using False m(3) by simp
    have a: "\<forall>j. i \<le> j \<and> j < length s \<longrightarrow> ?g ! j \<le> ?g ! m"
    proof (intro allI impI)
      fix j assume "i \<le> j \<and> j < length s"
      then show "?g ! j \<le> ?g ! m" using gi m(4) by (cases "j = i") auto
    qed
    have b: "\<forall>j. i \<le> j \<and> j < m \<longrightarrow> ?g ! j < ?g ! m"
    proof (intro allI impI)
      fix j assume "i \<le> j \<and> j < m"
      then show "?g ! j < ?g ! m" using gi m(5) by (cases "j = i") auto
    qed
    show ?thesis
      by (rule exI [of _ m]) (use m a b step in auto)
  qed
qed

lemma positive_gap_exists:
  assumes "s \<noteq> []"
  shows "\<exists>k < length s. 0 < circular_gaps s ! k"
proof (rule ccontr)
  assume "\<not> ?thesis"
  then have all: "\<And>k. k < length s \<Longrightarrow> circular_gaps s ! k \<le> 0"
    by (meson not_le_imp_less)
  have "\<And>i. Suc i < length s \<Longrightarrow> s ! Suc i \<le> s ! i"
  proof -
    fix i assume i: "Suc i < length s"
    then have "circular_gaps s ! i \<le> 0" using all [of i] by simp
    then show "s ! Suc i \<le> s ! i" using i by (simp add: circular_gaps_nth)
  qed
  then have down: "sorted_wrt (\<lambda>a b. b \<le> a) s"
    by (subst sorted_wrt_iff_nth_Suc_transp) (auto intro!: transpI)
  have last_first: "s ! (length s - 1) \<le> s ! 0"
  proof (cases "length s = 1")
    case True
    then show ?thesis by simp
  next
    case False
    then have "0 < length s - 1" using assms by (cases s) auto
    then show ?thesis using sorted_wrt_nth_less [OF down, of 0 "length s - 1"] by simp
  qed
  have n: "length s - 1 < length s" using assms by simp
  have "length s - 1 + 1 = length s"
    using assms by (cases s) auto
  then have "circular_gaps s ! (length s - 1) = 360 - s ! (length s - 1) + s ! 0"
    using circular_gaps_nth [OF n] by simp
  then show False using all [OF n] last_first by simp
qed


lemma fill_loop_acc:
  "fillLargestGaps_loop hues result needed n = result @ fillLargestGaps_loop hues [] needed n"
proof (induction "nat (needed - int n)" arbitrary: hues result n)
  case 0
  then show ?case by (simp add: fillLargestGaps_loop.simps)
next
  case (Suc d)
  define m where "m = snd (gap_scan (sort hues) 0 (0, 0))"
  have lt: "int n < needed" using Suc.hyps(2) by simp
  have d: "d = nat (needed - int (n + 1))" using Suc.hyps(2) by simp
  have "fillLargestGaps_loop hues result needed n =
        fillLargestGaps_loop (hues @ [m]) (result @ [m]) needed (n + 1)"
    using lt by (subst fillLargestGaps_loop.simps) (simp add: m_def Let_def)
  also have "\<dots> = (result @ [m]) @ fillLargestGaps_loop (hues @ [m]) [] needed (n + 1)"
    by (rule Suc.hyps(1) [OF d])
  also have "\<dots> = result @ fillLargestGaps_loop (hues @ [m]) ([] @ [m]) needed (n + 1)"
    using Suc.hyps(1) [OF d, of "hues @ [m]" "[m]"] by simp
  also have "\<dots> = result @ fillLargestGaps_loop hues [] needed n"
    using lt by (subst (2) fillLargestGaps_loop.simps) (simp add: m_def Let_def)
  finally show ?case .
qed

lemma fill_loop_shift:
  "fillLargestGaps_loop hues [] (needed + 1) (n + 1) = fillLargestGaps_loop hues [] needed n"
proof (induction "nat (needed - int n)" arbitrary: hues n)
  case 0
  then show ?case by (simp add: fillLargestGaps_loop.simps)
next
  case (Suc d)
  define m where "m = snd (gap_scan (sort hues) 0 (0, 0))"
  have lt: "int n < needed" using Suc.hyps(2) by simp
  have d: "d = nat (needed - int (n + 1))" using Suc.hyps(2) by simp
  have "fillLargestGaps_loop hues [] (needed + 1) (n + 1) =
        fillLargestGaps_loop (hues @ [m]) [m] (needed + 1) (n + 1 + 1)"
    using lt by (subst fillLargestGaps_loop.simps) (simp add: m_def Let_def)
  also have "\<dots> = [m] @ fillLargestGaps_loop (hues @ [m]) [] (needed + 1) (n + 1 + 1)"
    by (rule fill_loop_acc)
  also have "\<dots> = [m] @ fillLargestGaps_loop (hues @ [m]) [] needed (n + 1)"
    using Suc.hyps(1) [OF d] by simp
  also have "\<dots> = fillLargestGaps_loop (hues @ [m]) [m] needed (n + 1)"
    by (rule fill_loop_acc [symmetric])
  also have "\<dots> = fillLargestGaps_loop hues [] needed n"
    using lt by (subst (2) fillLargestGaps_loop.simps) (simp add: m_def Let_def)
  finally show ?case .
qed

lemma fillLargestGaps_one:
  "fillLargestGaps hues 1 = [snd (gap_scan (sort hues) 0 (0, 0))]"
  by (simp add: fillLargestGaps_def fillLargestGaps_loop.simps Let_def)

lemma fillLargestGaps_none: "needed \<le> 0 \<Longrightarrow> fillLargestGaps hues needed = []"
  by (simp add: fillLargestGaps_def fillLargestGaps_loop.simps)

lemma fillLargestGaps_next:
  assumes "0 \<le> needed"
  shows "fillLargestGaps hues (needed + 1) =
         fillLargestGaps hues 1 @ fillLargestGaps (hues @ fillLargestGaps hues 1) needed"
proof -
  define m where "m = snd (gap_scan (sort hues) 0 (0, 0))"
  have "fillLargestGaps hues (needed + 1) =
        fillLargestGaps_loop (hues @ [m]) [m] (needed + 1) (0 + 1)"
    unfolding fillLargestGaps_def using assms
    by (subst fillLargestGaps_loop.simps) (simp add: m_def Let_def)
  also have "\<dots> = [m] @ fillLargestGaps_loop (hues @ [m]) [] (needed + 1) (0 + 1)"
    by (rule fill_loop_acc)
  also have "\<dots> = [m] @ fillLargestGaps_loop (hues @ [m]) [] needed 0"
    by (simp only: fill_loop_shift)
  finally have "fillLargestGaps hues (needed + 1) = [m] @ fillLargestGaps (hues @ [m]) needed"
    by (simp add: fillLargestGaps_def)
  then show ?thesis
    by (simp add: fillLargestGaps_one m_def)
qed

lemma largest_gap_first:
  assumes "hues \<noteq> []"
  shows "\<exists>k < length hues.
           (\<forall>j. j < length hues \<longrightarrow> circular_gaps (sort hues) ! j \<le> circular_gaps (sort hues) ! k)
         \<and> (\<forall>j. j < k \<longrightarrow> circular_gaps (sort hues) ! j < circular_gaps (sort hues) ! k)
         \<and> fillLargestGaps hues 1 =
             [js_rem (sort hues ! k + circular_gaps (sort hues) ! k / 2) 360]"
proof -
  have ne: "sort hues \<noteq> []" using assms by (metis length_sort length_0_conv)
  obtain k0 where k0: "k0 < length (sort hues)" "0 < circular_gaps (sort hues) ! k0"
    using positive_gap_exists [OF ne] by blast
  from gap_scan_first_max [of 0 k0 "sort hues" 0 0] k0
  obtain k where k: "k < length (sort hues)"
    "\<forall>j. 0 \<le> j \<and> j < length (sort hues) \<longrightarrow> circular_gaps (sort hues) ! j \<le> circular_gaps (sort hues) ! k"
    "\<forall>j. 0 \<le> j \<and> j < k \<longrightarrow> circular_gaps (sort hues) ! j < circular_gaps (sort hues) ! k"
    "gap_scan (sort hues) 0 (0, 0) =
       (circular_gaps (sort hues) ! k, js_rem (sort hues ! k + circular_gaps (sort hues) ! k / 2) 360)"
    by auto
  show ?thesis
    by (rule exI [of _ k]) (use k in \<open>simp add: fillLargestGaps_one\<close>)
qed

text \<open>
  Claim C9 (greedy gap filling): hues are added one at a time. Nothing is added when nothing
  is needed; otherwise the first new hue is the one a single fill would give, and the
  remaining ones are computed from the working set with that hue added. For a working set
  that is not empty the new hue is the midpoint (modulo 360) of a circular gap of the sorted
  set that no gap exceeds, and of the first such gap: every gap before it is strictly
  smaller. For the hues 0 and 180 and one needed hue the result is 90.
\<close>

theorem fillLargestGaps_greedy:
  "(needed \<le> 0 \<longrightarrow> fillLargestGaps hues needed = [])
   \<and> (0 \<le> needed \<longrightarrow>
        fillLargestGaps hues (needed + 1) =
          fillLargestGaps hues 1 @ fillLargestGaps (hues @ fillLargestGaps hues 1) needed)
   \<and> (hues \<noteq> [] \<longrightarrow>
        (\<exists>k < length hues.
            (\<forall>j. j < length hues \<longrightarrow>
                 circular_gaps (sort hues) ! j \<le> circular_gaps (sort hues) ! k)
          \<and> (\<forall>j. j < k \<longrightarrow> circular_gaps (sort hues) ! j < circular_gaps (sort hues) ! k)
          \<and> fillLargestGaps hues 1 =
              [js_rem (sort hues ! k + circular_gaps (sort hues) ! k / 2) 360]))
   \<and> fillLargestGaps [0, 180] 1 = [90]"
proof -
  have "fillLargestGaps [0, 180] 1 = [90]"
    unfolding fillLargestGaps_def by code_simp
  then show ?thesis
    using fillLargestGaps_none [of needed hues] fillLargestGaps_next [of needed hues]
      largest_gap_first [of hues]
    by blast
qed

theorem fillLargestGaps_greedy_witness:
  "fillLargestGaps [0, 180] 2 =
     fillLargestGaps [0, 180] 1 @ fillLargestGaps ([0, 180] @ fillLargestGaps [0, 180] 1) 1
   \<and> (\<exists>k < 2. fillLargestGaps [0, 180] 1 =
          [js_rem (sort [0, 180] ! k + circular_gaps (sort [0, 180]) ! k / 2) 360])"
  using fillLargestGaps_greedy [of 1 "[0, 180]"] by (auto simp: numeral_2_eq_2)

subsection \<open>Shade ramp\<close>

lemma generateShades_levels: "map fst (generateShades hex) = SHADES"
  by (simp add: generateShades_def Let_def SHADES_def)

text \<open>
  Claim C2 (shade-500 identity): for every input string, the ramp of \<^verbatim>\<open>generateShades\<close>
  has exactly the eleven levels 50, 100, 200, 300, 400, 500, 600, 700, 800, 900, 950 in this
  order, and its entry for level 500 is the input string itself, character for character:
  no conversion is applied to it.
\<close>

theorem shade_500_identity:
  "map fst (generateShades hex) = [50, 100, 200, 300, 400, 500, 600, 700, 800, 900, 950]
   \<and> length (generateShades hex) = 11
   \<and> map_of (generateShades hex) 500 = Some hex
   \<and> generateShades hex ! 5 = (500, hex)"
  by (simp add: generateShades_def Let_def SHADES_def)

text \<open>The lightness and chroma that the callback computes at each of the ten other levels.\<close>

lemma shade_oklch_levels:
  "shade_oklch baseL baseC 50 = Some (baseL + (LIGHT_END - baseL) * 0.92, baseC * max 0 (1 - 0.92 * 0.95))"
  "shade_oklch baseL baseC 100 = Some (baseL + (LIGHT_END - baseL) * 0.80, baseC * max 0 (1 - 0.80 * 0.95))"
  "shade_oklch baseL baseC 200 = Some (baseL + (LIGHT_END - baseL) * 0.62, baseC * max 0 (1 - 0.62 * 0.95))"
  "shade_oklch baseL baseC 300 = Some (baseL + (LIGHT_END - baseL) * 0.42, baseC * max 0 (1 - 0.42 * 0.95))"
  "shade_oklch baseL baseC 400 = Some (baseL + (LIGHT_END - baseL) * 0.18, baseC * max 0 (1 - 0.18 * 0.95))"
  "shade_oklch baseL baseC 600 = Some (baseL - (baseL - DARK_END) * 0.18, baseC * max 0 (1 - 0.18 * 0.65))"
  "shade_oklch baseL baseC 700 = Some (baseL - (baseL - DARK_END) * 0.38, baseC * max 0 (1 - 0.38 * 0.65))"
  "shade_oklch baseL baseC 800 = Some (baseL - (baseL - DARK_END) * 0.56, baseC * max 0 (1 - 0.56 * 0.65))"
  "shade_oklch baseL baseC 900 = Some (baseL - (baseL - DARK_END) * 0.76, baseC * max 0 (1 - 0.76 * 0.65))"
  "shade_oklch baseL baseC 950 = Some (baseL - (baseL - DARK_END) * 0.92, baseC * max 0 (1 - 0.92 * 0.65))"
  by (simp_all add: shade_oklch_def LIGHTER_T_def DARKER_T_def)

lemma ramp_lightness:
  "map (shade_lightness baseL baseC) SHADES =
     map Some [baseL + (LIGHT_END - baseL) * 0.92, baseL + (LIGHT_END - baseL) * 0.80,
               baseL + (LIGHT_END - baseL) * 0.62, baseL + (LIGHT_END - baseL) * 0.42,
               baseL + (LIGHT_END - baseL) * 0.18, baseL,
               baseL - (baseL - DARK_END) * 0.18, baseL - (baseL - DARK_END) * 0.38,
               baseL - (baseL - DARK_END) * 0.56, baseL - (baseL - DARK_END) * 0.76,
               baseL - (baseL - DARK_END) * 0.92]"
  by (simp add: SHADES_def shade_lightness_def shade_oklch_levels)

text \<open>
  Black has OKLCH lightness 0, below \<^const>\<open>DARK_END\<close>, and its level 950 is computed with
  lightness 0.092: the hex colour of level 950 is lighter than the one of level 500.
\<close>

lemma hexToRgb_black: "hexToRgb ''#000000'' = (Some 0, Some 0, Some 0)"
  by code_simp

lemma rgbToOklch_black: "rgbToOklch 0 0 0 = (0, 0, 0)"
  by (simp add: rgbToOklch_def srgbToLinear_def atan2_def Let_def)

lemma hexToOklch_black: "hexToOklch ''#000000'' = Some (0, 0, 0)"
  by (simp add: hexToOklch_def hexToRgb_black rgbToOklch_black)

lemma linearToSrgb_low: "0 \<le> c \<Longrightarrow> c \<le> 0.0031308 \<Longrightarrow> linearToSrgb c = c * 12.92 * 255"
  by (simp add: linearToSrgb_def Let_def)

lemma oklchToRgb_gray:
  "oklchToRgb L 0 H = (linearToSrgb (L ^ 3 * (4.0767416621 - 3.3077115913 + 0.2309699292)),
                       linearToSrgb (L ^ 3 * (- 1.2684380046 + 2.6097574011 - 0.3413193965)),
                       linearToSrgb (L ^ 3 * (- 0.0041960863 - 0.7034186147 + 1.7076147010)))"
  by (simp add: oklchToRgb_def Let_def algebra_simps)

lemma oklchToRgb_092: "oklchToRgb 0.092 0 0 = (0.092 ^ 3 * 12.92 * 255, 0.092 ^ 3 * 12.92 * 255, 0.092 ^ 3 * 12.92 * 255)"
proof -
  have "linearToSrgb (0.092 ^ 3) = 0.092 ^ 3 * 12.92 * 255"
    by (rule linearToSrgb_low) (simp_all add: power3_eq_cube)
  then show ?thesis
    by (simp add: oklchToRgb_gray)
qed

lemma black_950: "map_of (generateShades ''#000000'') 950 = Some ''#030303''"
proof -
  have "rgbToHex (Some (0.092 ^ 3 * 12.92 * 255)) (Some (0.092 ^ 3 * 12.92 * 255)) (Some (0.092 ^ 3 * 12.92 * 255)) = ''#030303''"
    by code_simp
  then have "oklchToHex 0.092 0 0 = ''#030303''"
    unfolding oklchToHex_def oklchToRgb_092 by simp
  moreover have "shade_oklch 0 0 950 = Some (0.092, 0)"
    by (simp add: shade_oklch_levels DARK_END_def)
  ultimately show ?thesis
    by (simp add: generateShades_def hexToOklch_black SHADES_def)
qed

text \<open>
  Claim C3 as stated (for every base colour the lightness decreases strictly from level 50
  to level 950) does not hold: for the base colour \<^verbatim>\<open>#000000\<close> the lightness is 0 at
  level 500 and rises from 0.018 at level 600 to 0.092 at level 950, and the ramp ends with
  \<^verbatim>\<open>#030303\<close>, lighter than the base.
\<close>

theorem black_ramp_not_decreasing:
  "hexToOklch ''#000000'' = Some (0, 0, 0)
   \<and> map (shade_lightness 0 0) SHADES =
       map Some [0.9016, 0.784, 0.6076, 0.4116, 0.1764, 0, 0.018, 0.038, 0.056, 0.076, 0.092]
   \<and> \<not> sorted_wrt (\<lambda>a b. b < a)
         [0.9016, 0.784, 0.6076, 0.4116, 0.1764, 0, 0.018, 0.038, 0.056, 0.076, 0.092 :: real]
   \<and> map_of (generateShades ''#000000'') 500 = Some ''#000000''
   \<and> map_of (generateShades ''#000000'') 950 = Some ''#030303''"
proof -
  have "map_of (generateShades ''#000000'') 500 = Some ''#000000''"
    by (simp add: generateShades_def Let_def SHADES_def)
  then show ?thesis
    by (simp add: hexToOklch_black ramp_lightness black_950 LIGHT_END_def DARK_END_def)
qed

text \<open>
  What \<^verbatim>\<open>generateShades\<close> hands to \<^verbatim>\<open>oklchToHex\<close> at each level, for a base colour
  that \<^verbatim>\<open>hexToOklch\<close> reads as \<open>(baseL, baseC, baseH)\<close>: the ramp is the list of the
  levels, each with the hex string of its lightness and chroma at the hue of the base, and
  with the input itself at level 500.
\<close>

lemma generateShades_ramp:
  assumes "hexToOklch hex = Some (baseL, baseC, baseH)"
  shows "generateShades hex =
           map (\<lambda>(shade, L, C). (shade, if shade = 500 then hex else oklchToHex L C baseH))
             (zip SHADES
                (zip (map (\<lambda>t. baseL + (LIGHT_END - baseL) * t) [0.92, 0.80, 0.62, 0.42, 0.18]
                      @ [baseL]
                      @ map (\<lambda>t. baseL - (baseL - DARK_END) * t) [0.18, 0.38, 0.56, 0.76, 0.92])
                     (map (\<lambda>t. baseC * max 0 (1 - t * 0.95)) [0.92, 0.80, 0.62, 0.42, 0.18]
                      @ [baseC]
                      @ map (\<lambda>t. baseC * max 0 (1 - t * 0.65)) [0.18, 0.38, 0.56, 0.76, 0.92])))"
  by (simp add: generateShades_def assms SHADES_def shade_oklch_levels)

lemma hexToOklch_chroma_nonneg:
  assumes "hexToOklch hex = Some (baseL, baseC, baseH)"
  shows "0 \<le> baseC"
proof -
  obtain r g b where "rgbToOklch r g b = (baseL, baseC, baseH)"
    using assms by (auto simp: hexToOklch_def split: prod.splits option.splits)
  then show ?thesis
    by (auto simp: rgbToOklch_def Let_def)
qed

text \<open>
  A base colour inside the interval, and with a positive chroma: \<^verbatim>\<open>#0000ff\<close>, whose
  lightness is about 0.452 and whose chroma is about 0.313.
\<close>

lemma cbrt_between:
  fixes a b x :: real
  assumes "a ^ 3 \<le> x" and "x \<le> b ^ 3" and "0 \<le> a" and "0 \<le> b"
  shows "a \<le> root 3 x \<and> root 3 x \<le> b"
proof -
  have "root 3 (a ^ 3) \<le> root 3 x" "root 3 x \<le> root 3 (b ^ 3)"
    using assms(1,2) by (simp_all only: real_root_le_iff zero_less_numeral)
  moreover have "root 3 (a ^ 3) = a" "root 3 (b ^ 3) = b"
    using assms(3,4) by (simp_all only: real_root_power_cancel zero_less_numeral)
  ultimately show ?thesis by simp
qed

lemma hexToRgb_blue: "hexToRgb ''#0000ff'' = (Some 0, Some 0, Some 255)"
  by code_simp

lemma srgbToLinear_ends: "srgbToLinear 0 = 0" "srgbToLinear 255 = 1"
  by (simp_all add: srgbToLinear_def)

lemma hexToOklch_blue:
  "\<exists>baseL baseC baseH. hexToOklch ''#0000ff'' = Some (baseL, baseC, baseH)
     \<and> 0.44 < baseL \<and> baseL < 0.46 \<and> 0.3 < baseC"
proof -
  define l' :: real where "l' = root 3 0.0514459929"
  define m' :: real where "m' = root 3 0.1073969566"
  define s' :: real where "s' = root 3 0.6299787005"
  define L where "L = 0.2104542553 * l' + 0.7936177850 * m' - 0.0040720468 * s'"
  define A where "A = 1.9779984951 * l' - 2.4285922050 * m' + 0.4505937099 * s'"
  define B where "B = 0.0259040371 * l' + 0.7827717662 * m' - 0.8086757660 * s'"
  define C where "C = sqrt (A * A + B * B)"
  define H0 where "H0 = atan2 B A * 180 / pi"
  define H where "H = (if H0 < 0 then H0 + 360 else H0)"
  have "rgbToOklch 0 0 255 = (L, C, H)"
    unfolding rgbToOklch_def srgbToLinear_ends Let_def H_def H0_def C_def B_def A_def L_def
      l'_def m'_def s'_def
    by simp
  then have blue: "hexToOklch ''#0000ff'' = Some (L, C, H)"
    by (simp add: hexToOklch_def hexToRgb_blue)
  have l: "0.37 \<le> l' \<and> l' \<le> 0.38"
    unfolding l'_def by (rule cbrt_between) (simp_all add: power3_eq_cube)
  have m: "0.47 \<le> m' \<and> m' \<le> 0.48"
    unfolding m'_def by (rule cbrt_between) (simp_all add: power3_eq_cube)
  have s: "0.85 \<le> s' \<and> s' \<le> 0.86"
    unfolding s'_def by (rule cbrt_between) (simp_all add: power3_eq_cube)
  have above: "0.44 < L"
    using l m s by (simp add: L_def; argo)
  have below: "L < 0.46"
    using l m s by (simp add: L_def; argo)
  have "B < - (3 / 10)"
    using l m s by (simp add: B_def; argo)
  then have "3 / 10 < \<bar>B\<bar>" by argo
  moreover have "\<bar>B\<bar> \<le> C"
  proof -
    have "sqrt (B * B) \<le> sqrt (A * A + B * B)"
      by (rule real_sqrt_le_mono) simp
    then show ?thesis by (simp add: C_def)
  qed
  ultimately have "0.3 < C" by simp
  then show ?thesis
    using blue above below by blast
qed

text \<open>
  Claim C3, amended (monotonic lightness): the lightness values that \<^verbatim>\<open>generateShades\<close>
  computes for the eleven levels and hands to \<^verbatim>\<open>oklchToHex\<close>, with the lightness of the
  base colour at level 500, are strictly decreasing from level 50 to level 950 when the
  lightness of the base colour lies strictly between \<^const>\<open>DARK_END\<close> (0.10) and
  \<^const>\<open>LIGHT_END\<close> (0.98), and only then. This is the lightness the ramp asks for, before
  \<^verbatim>\<open>oklchToHex\<close> clamps the colour to the gamut and rounds it to bytes.
\<close>

theorem lightness_decreasing_iff:
  assumes "hexToOklch hex = Some (baseL, baseC, baseH)"
  shows "\<exists>ls cs.
           generateShades hex =
             map (\<lambda>(shade, L, C). (shade, if shade = 500 then hex else oklchToHex L C baseH))
               (zip SHADES (zip ls cs))
           \<and> ls = map (\<lambda>t. baseL + (LIGHT_END - baseL) * t) [0.92, 0.80, 0.62, 0.42, 0.18]
                  @ [baseL]
                  @ map (\<lambda>t. baseL - (baseL - DARK_END) * t) [0.18, 0.38, 0.56, 0.76, 0.92]
           \<and> cs = map (\<lambda>t. baseC * max 0 (1 - t * 0.95)) [0.92, 0.80, 0.62, 0.42, 0.18]
                  @ [baseC]
                  @ map (\<lambda>t. baseC * max 0 (1 - t * 0.65)) [0.18, 0.38, 0.56, 0.76, 0.92]
           \<and> (sorted_wrt (\<lambda>a b. b < a) ls \<longleftrightarrow> DARK_END < baseL \<and> baseL < LIGHT_END)"
proof -
  define ls where "ls = map (\<lambda>t. baseL + (LIGHT_END - baseL) * t) [0.92, 0.80, 0.62, 0.42, 0.18]
                  @ [baseL]
                  @ map (\<lambda>t. baseL - (baseL - DARK_END) * t) [0.18, 0.38, 0.56, 0.76, 0.92]"
  define cs where "cs = map (\<lambda>t. baseC * max 0 (1 - t * 0.95)) [0.92, 0.80, 0.62, 0.42, 0.18]
                  @ [baseC]
                  @ map (\<lambda>t. baseC * max 0 (1 - t * 0.65)) [0.18, 0.38, 0.56, 0.76, 0.92]"
  have ramp: "generateShades hex =
      map (\<lambda>(shade, L, C). (shade, if shade = 500 then hex else oklchToHex L C baseH))
        (zip SHADES (zip ls cs))"
    unfolding ls_def cs_def by (rule generateShades_ramp [OF assms])
  have order: "sorted_wrt (\<lambda>a b. b < a) ls \<longleftrightarrow> DARK_END < baseL \<and> baseL < LIGHT_END"
  proof
    assume "sorted_wrt (\<lambda>a b. b < a) ls"
    then have "baseL < baseL + (LIGHT_END - baseL) * 0.18"
      and "baseL - (baseL - DARK_END) * 0.18 < baseL"
      by (simp_all add: ls_def)
    then show "DARK_END < baseL \<and> baseL < LIGHT_END"
      by (simp add: LIGHT_END_def DARK_END_def)
  next
    assume inside: "DARK_END < baseL \<and> baseL < LIGHT_END"
    show "sorted_wrt (\<lambda>a b. b < a) ls"
      unfolding ls_def
      using inside apply (clarsimp simp add: LIGHT_END_def DARK_END_def)
      apply (intro conjI; argo)
      done
  qed
  show ?thesis
    by (intro exI [of _ ls] exI [of _ cs] conjI) (rule ramp ls_def cs_def order)+
qed

theorem lightness_decreasing_iff_witness:
  "(\<exists>baseL baseC baseH ls cs.
      hexToOklch ''#0000ff'' = Some (baseL, baseC, baseH)
      \<and> generateShades ''#0000ff'' =
          map (\<lambda>(shade, L, C). (shade, if shade = 500 then ''#0000ff'' else oklchToHex L C baseH))
            (zip SHADES (zip ls cs))
      \<and> ls = map (\<lambda>t. baseL + (LIGHT_END - baseL) * t) [0.92, 0.80, 0.62, 0.42, 0.18]
             @ [baseL]
             @ map (\<lambda>t. baseL - (baseL - DARK_END) * t) [0.18, 0.38, 0.56, 0.76, 0.92]
      \<and> sorted_wrt (\<lambda>a b. b < a) ls)
   \<and> (\<exists>ls cs.
        generateShades ''#000000'' =
          map (\<lambda>(shade, L, C). (shade, if shade = 500 then ''#000000'' else oklchToHex L C 0))
            (zip SHADES (zip ls cs))
        \<and> ls = [0.9016, 0.784, 0.6076, 0.4116, 0.1764, 0, 0.018, 0.038, 0.056, 0.076, 0.092]
        \<and> \<not> sorted_wrt (\<lambda>a b. b < a) ls)"
proof
  obtain baseL baseC baseH where blue: "hexToOklch ''#0000ff'' = Some (baseL, baseC, baseH)"
    and inside: "DARK_END < baseL \<and> baseL < LIGHT_END"
    using hexToOklch_blue by (auto simp: DARK_END_def LIGHT_END_def)
  show "\<exists>baseL baseC baseH ls cs.
      hexToOklch ''#0000ff'' = Some (baseL, baseC, baseH)
      \<and> generateShades ''#0000ff'' =
          map (\<lambda>(shade, L, C). (shade, if shade = 500 then ''#0000ff'' else oklchToHex L C baseH))
            (zip SHADES (zip ls cs))
      \<and> ls = map (\<lambda>t. baseL + (LIGHT_END - baseL) * t) [0.92, 0.80, 0.62, 0.42, 0.18]
             @ [baseL]
             @ map (\<lambda>t. baseL - (baseL - DARK_END) * t) [0.18, 0.38, 0.56, 0.76, 0.92]
      \<and> sorted_wrt (\<lambda>a b. b < a) ls"
    using lightness_decreasing_iff [OF blue] blue inside by blast
  show "\<exists>ls cs.
        generateShades ''#000000'' =
          map (\<lambda>(shade, L, C). (shade, if shade = 500 then ''#000000'' else oklchToHex L C 0))
            (zip SHADES (zip ls cs))
        \<and> ls = [0.9016, 0.784, 0.6076, 0.4116, 0.1764, 0, 0.018, 0.038, 0.056, 0.076, 0.092]
        \<and> \<not> sorted_wrt (\<lambda>a b. b < a) ls"
  proof -
    obtain ls cs where ramp: "generateShades ''#000000'' =
          map (\<lambda>(shade, L, C). (shade, if shade = 500 then ''#000000'' else oklchToHex L C 0))
            (zip SHADES (zip ls cs))"
      and ls: "ls = map (\<lambda>t. 0 + (LIGHT_END - 0) * t) [0.92, 0.80, 0.62, 0.42, 0.18]
                  @ [0]
                  @ map (\<lambda>t. 0 - (0 - DARK_END) * t) [0.18, 0.38, 0.56, 0.76, 0.92]"
      and order: "sorted_wrt (\<lambda>a b. b < a) ls \<longleftrightarrow> DARK_END < 0 \<and> 0 < LIGHT_END"
      using lightness_decreasing_iff [OF hexToOklch_black] by blast
    have "ls = [0.9016, 0.784, 0.6076, 0.4116, 0.1764, 0, 0.018, 0.038, 0.056, 0.076, 0.092]"
      unfolding ls by (simp add: LIGHT_END_def DARK_END_def)
    moreover have "\<not> sorted_wrt (\<lambda>a b. b < a) ls"
      unfolding order by (simp add: DARK_END_def)
    ultimately show ?thesis
      using ramp by blast
  qed
qed

text \<open>
  The emitted colours are rounded to bytes, and two neighbouring levels of a dark base colour
  can round to the same bytes.
\<close>

lemma hexToRgb_050505: "hexToRgb ''#050505'' = (Some 5, Some 5, Some 5)"
  by code_simp

lemma js_round_5: "9 / 2 \<le> v \<Longrightarrow> v < 11 / 2 \<Longrightarrow> js_round v = 5"
  unfolding js_round_def by linarith

lemma hexByte_5:
  assumes "9 / 2 \<le> v" and "v < 11 / 2"
  shows "hexByte (Some v) = ''05''"
proof -
  have "clamp v = 5"
    using js_round_5 [OF assms] by (simp add: clamp_def)
  moreover have "padStart 2 (CHR ''0'') (toString16 5) = ''05''"
    by code_simp
  ultimately show ?thesis
    by (simp add: hexByte_def)
qed

lemma cube_between:
  fixes p q x :: real
  assumes "0 \<le> p" and "p \<le> x" and "x \<le> q"
  shows "p ^ 3 \<le> x ^ 3 \<and> x ^ 3 \<le> q ^ 3"
  using assms by (simp add: power_mono)

lemma polar_component_bound:
  fixes C t :: real
  assumes "0 \<le> C"
  shows "\<bar>C * cos t\<bar> \<le> C" and "\<bar>C * sin t\<bar> \<le> C"
proof -
  have "\<bar>C * cos t\<bar> = C * \<bar>cos t\<bar>" "\<bar>C * sin t\<bar> = C * \<bar>sin t\<bar>"
    using assms by (simp_all add: abs_mult)
  moreover have "C * \<bar>cos t\<bar> \<le> C * 1" "C * \<bar>sin t\<bar> \<le> C * 1"
    using assms by (intro mult_left_mono abs_cos_le_one abs_sin_le_one; simp)+
  ultimately show "\<bar>C * cos t\<bar> \<le> C" and "\<bar>C * sin t\<bar> \<le> C"
    by simp_all
qed

lemma near_gray_bytes:
  fixes L C H :: real
  assumes L: "0.11223 \<le> L" "L \<le> 0.11224" and C: "0 \<le> C" "C \<le> 0.000004"
  shows "oklchToHex L C H = ''#050505''"
proof -
  define a where "a = C * cos (H * pi / 180)"
  define b where "b = C * sin (H * pi / 180)"
  have ab: "\<bar>a\<bar> \<le> 0.000004" "\<bar>b\<bar> \<le> 0.000004"
    using polar_component_bound [OF C(1), of "H * pi / 180"] C(2) by (simp_all add: a_def b_def)
  define l2 where "l2 = L + 0.3963377774 * a + 0.2158037573 * b"
  define m2 where "m2 = L - 0.1055613458 * a - 0.0638541728 * b"
  define s2 where "s2 = L - 0.0894841775 * a - 1.2914855480 * b"
  have l2_lower: "0.11222 \<le> l2"
    using L ab by (simp add: l2_def; argo)
  have l2_upper: "l2 \<le> 0.11225"
    using L ab by (simp add: l2_def; argo)
  note l2 = l2_lower l2_upper
  have m2_lower: "0.11222 \<le> m2"
    using L ab by (simp add: m2_def; argo)
  have m2_upper: "m2 \<le> 0.11225"
    using L ab by (simp add: m2_def; argo)
  note m2 = m2_lower m2_upper
  have s2_lower: "0.11222 \<le> s2"
    using L ab by (simp add: s2_def; argo)
  have s2_upper: "s2 \<le> 0.11225"
    using L ab by (simp add: s2_def; argo)
  note s2 = s2_lower s2_upper
  define l3 where "l3 = l2 ^ 3"
  define m3 where "m3 = m2 ^ 3"
  define s3 where "s3 = s2 ^ 3"
  have cubes: "0.11222 ^ 3 \<le> l3 \<and> l3 \<le> 0.11225 ^ 3" "0.11222 ^ 3 \<le> m3 \<and> m3 \<le> 0.11225 ^ 3"
    "0.11222 ^ 3 \<le> s3 \<and> s3 \<le> 0.11225 ^ 3"
    unfolding l3_def m3_def s3_def
    using l2 m2 s2 by (intro cube_between; simp)+
  define x where "x = 4.0767416621 * l3 - 3.3077115913 * m3 + 0.2309699292 * s3"
  define y where "y = - 1.2684380046 * l3 + 2.6097574011 * m3 - 0.3413193965 * s3"
  define z where "z = - 0.0041960863 * l3 - 0.7034186147 * m3 + 1.7076147010 * s3"
  have channels: "oklchToRgb L C H = (linearToSrgb x, linearToSrgb y, linearToSrgb z)"
    unfolding oklchToRgb_def Let_def x_def y_def z_def l3_def m3_def s3_def
      l2_def m2_def s2_def a_def b_def
    by (rule refl)
  have x_lower: "0.00137 \<le> x"
    using cubes by (simp add: x_def power3_eq_cube; argo)
  have x_upper: "x \<le> 0.00166"
    using cubes by (simp add: x_def power3_eq_cube; argo)
  note x = x_lower x_upper
  have y_lower: "0.00137 \<le> y"
    using cubes by (simp add: y_def power3_eq_cube; argo)
  have y_upper: "y \<le> 0.00166"
    using cubes by (simp add: y_def power3_eq_cube; argo)
  note y = y_lower y_upper
  have z_lower: "0.00137 \<le> z"
    using cubes by (simp add: z_def power3_eq_cube; argo)
  have z_upper: "z \<le> 0.00166"
    using cubes by (simp add: z_def power3_eq_cube; argo)
  note z = z_lower z_upper
  have "linearToSrgb x = x * 12.92 * 255" "linearToSrgb y = y * 12.92 * 255"
    "linearToSrgb z = z * 12.92 * 255"
    using x y z by (simp_all add: linearToSrgb_low)
  moreover have "9 / 2 \<le> x * 12.92 * 255" "x * 12.92 * 255 < 11 / 2"
    "9 / 2 \<le> y * 12.92 * 255" "y * 12.92 * 255 < 11 / 2"
    "9 / 2 \<le> z * 12.92 * 255" "z * 12.92 * 255 < 11 / 2"
    using x y z by simp_all
  ultimately have "hexByte (Some (linearToSrgb x)) = ''05''"
    "hexByte (Some (linearToSrgb y)) = ''05''" "hexByte (Some (linearToSrgb z)) = ''05''"
    by (simp_all only: hexByte_5)
  then show ?thesis
    by (simp add: oklchToHex_def channels rgbToHex_def)
qed

lemma hexToOklch_050505:
  "\<exists>baseL baseC baseH. hexToOklch ''#050505'' = Some (baseL, baseC, baseH)
     \<and> 0.114918 \<le> baseL \<and> baseL \<le> 0.114919 \<and> 0 \<le> baseC \<and> baseC \<le> 0.000004"
proof -
  define x :: real where "x = 5 / 255 / 12.92"
  have lin: "srgbToLinear 5 = x"
    by (simp add: srgbToLinear_def x_def)
  define l where "l = 0.4122214708 * x + 0.5363325363 * x + 0.0514459929 * x"
  define m where "m = 0.2119034982 * x + 0.6806995451 * x + 0.1073969566 * x"
  define s where "s = 0.0883024619 * x + 0.2817188376 * x + 0.6299787005 * x"
  define l' where "l' = root 3 l"
  define m' where "m' = root 3 m"
  define s' where "s' = root 3 s"
  define L where "L = 0.2104542553 * l' + 0.7936177850 * m' - 0.0040720468 * s'"
  define A where "A = 1.9779984951 * l' - 2.4285922050 * m' + 0.4505937099 * s'"
  define B where "B = 0.0259040371 * l' + 0.7827717662 * m' - 0.8086757660 * s'"
  define C where "C = sqrt (A * A + B * B)"
  define H0 where "H0 = atan2 B A * 180 / pi"
  define H where "H = (if H0 < 0 then H0 + 360 else H0)"
  have "rgbToOklch 5 5 5 = (L, C, H)"
    unfolding rgbToOklch_def lin Let_def H_def H0_def C_def B_def A_def L_def
      l'_def m'_def s'_def l_def m_def s_def
    by (rule refl)
  then have gray: "hexToOklch ''#050505'' = Some (L, C, H)"
    by (simp add: hexToOklch_def hexToRgb_050505)
  have l: "0.1149182 \<le> l' \<and> l' \<le> 0.1149183"
    unfolding l'_def by (rule cbrt_between) (simp_all add: l_def x_def power3_eq_cube)
  have m: "0.1149182 \<le> m' \<and> m' \<le> 0.1149183"
    unfolding m'_def by (rule cbrt_between) (simp_all add: m_def x_def power3_eq_cube)
  have s: "0.1149182 \<le> s' \<and> s' \<le> 0.1149183"
    unfolding s'_def by (rule cbrt_between) (simp_all add: s_def x_def power3_eq_cube)
  have lower: "0.114918 \<le> L"
    using l m s by (simp add: L_def; argo)
  have upper: "L \<le> 0.114919"
    using l m s by (simp add: L_def; argo)
  have A: "\<bar>A\<bar> \<le> 0.000002"
    using l m s by (simp add: A_def; argo)
  have B: "\<bar>B\<bar> \<le> 0.000002"
    using l m s by (simp add: B_def; argo)
  have "C \<le> \<bar>A\<bar> + \<bar>B\<bar>"
    using sqrt_sum_squares_le_sum_abs [of A B] by (simp add: C_def power2_eq_square)
  then have "C \<le> 0.000004" using A B by simp
  moreover have "0 \<le> C" by (simp add: C_def)
  ultimately show ?thesis
    using gray lower upper by blast
qed

text \<open>
  The base colour \<^verbatim>\<open>#050505\<close> lies inside the interval, with a lightness of about 0.1149,
  and the lightness asked for at level 600 is about 0.1122, below it. The byte rounding of
  \<^verbatim>\<open>oklchToHex\<close> returns \<^verbatim>\<open>#050505\<close> for it again: the hex colours of the ramp
  need not differ from one level to the next.
\<close>

lemma emitted_ramp_not_strict:
  "\<exists>baseL baseC baseH. hexToOklch ''#050505'' = Some (baseL, baseC, baseH)
     \<and> DARK_END < baseL \<and> baseL < LIGHT_END
     \<and> map_of (generateShades ''#050505'') 500 = Some ''#050505''
     \<and> map_of (generateShades ''#050505'') 600 = Some ''#050505''"
proof -
  obtain baseL baseC baseH where gray: "hexToOklch ''#050505'' = Some (baseL, baseC, baseH)"
    and L: "0.114918 \<le> baseL" "baseL \<le> 0.114919" and C: "0 \<le> baseC" "baseC \<le> 0.000004"
    using hexToOklch_050505 by blast
  define L6 where "L6 = baseL - (baseL - DARK_END) * 0.18"
  define C6 where "C6 = baseC * max 0 (1 - 0.18 * 0.65)"
  have L6_lower: "0.11223 \<le> L6"
    using L by (simp add: L6_def DARK_END_def; argo)
  have L6_upper: "L6 \<le> 0.11224"
    using L by (simp add: L6_def DARK_END_def; argo)
  have C6_lower: "0 \<le> C6"
    using C by (simp add: C6_def)
  have C6_upper: "C6 \<le> 0.000004"
    using C by (simp add: C6_def; argo)
  have "oklchToHex L6 C6 baseH = ''#050505''"
    by (rule near_gray_bytes [OF L6_lower L6_upper C6_lower C6_upper])
  moreover have "shade_oklch baseL baseC 600 = Some (L6, C6)"
    by (simp add: shade_oklch_levels L6_def C6_def)
  ultimately have "map_of (generateShades ''#050505'') 600 = Some ''#050505''"
    by (simp add: generateShades_def gray SHADES_def)
  moreover have "map_of (generateShades ''#050505'') 500 = Some ''#050505''"
    by (simp add: generateShades_def Let_def SHADES_def)
  moreover have "DARK_END < baseL \<and> baseL < LIGHT_END"
    using L by (simp add: DARK_END_def LIGHT_END_def)
  ultimately show ?thesis
    using gray by blast
qed

text \<open>
  Claim C10 (chroma attenuation): for every base colour, whose chroma \<open>C\<close> is never
  negative, the chroma that \<^verbatim>\<open>generateShades\<close> hands to \<^verbatim>\<open>oklchToHex\<close> at a lighter
  level is \<open>C * (1 - t * 0.95)\<close> floored at 0, at a darker level \<open>C * (1 - t * 0.65)\<close>
  floored at 0, and \<open>C\<close> itself belongs to level 500; the values do not decrease from level 50
  up to level 500, do not increase from level 500 up to level 950, and none exceeds \<open>C\<close>.
\<close>

theorem chroma_attenuation:
  assumes "hexToOklch hex = Some (baseL, baseC, baseH)"
  shows "\<exists>ls cs.
           generateShades hex =
             map (\<lambda>(shade, L, C). (shade, if shade = 500 then hex else oklchToHex L C baseH))
               (zip SHADES (zip ls cs))
           \<and> ls = map (\<lambda>t. baseL + (LIGHT_END - baseL) * t) [0.92, 0.80, 0.62, 0.42, 0.18]
                  @ [baseL]
                  @ map (\<lambda>t. baseL - (baseL - DARK_END) * t) [0.18, 0.38, 0.56, 0.76, 0.92]
           \<and> cs = map (\<lambda>t. max 0 (baseC * (1 - t * 0.95))) [0.92, 0.80, 0.62, 0.42, 0.18]
                  @ [baseC]
                  @ map (\<lambda>t. max 0 (baseC * (1 - t * 0.65))) [0.18, 0.38, 0.56, 0.76, 0.92]
           \<and> 0 \<le> baseC
           \<and> sorted (take 6 cs)
           \<and> sorted_wrt (\<lambda>a b. b \<le> a) (drop 5 cs)
           \<and> (\<forall>c \<in> set cs. 0 \<le> c \<and> c \<le> baseC)"
proof -
  have nonneg: "0 \<le> baseC"
    by (rule hexToOklch_chroma_nonneg [OF assms])
  define ls where "ls = map (\<lambda>t. baseL + (LIGHT_END - baseL) * t) [0.92, 0.80, 0.62, 0.42, 0.18]
                  @ [baseL]
                  @ map (\<lambda>t. baseL - (baseL - DARK_END) * t) [0.18, 0.38, 0.56, 0.76, 0.92]"
  define cs where "cs = map (\<lambda>t. max 0 (baseC * (1 - t * 0.95))) [0.92, 0.80, 0.62, 0.42, 0.18]
                  @ [baseC]
                  @ map (\<lambda>t. max 0 (baseC * (1 - t * 0.65))) [0.18, 0.38, 0.56, 0.76, 0.92]"
  have scaled: "cs = map (\<lambda>t. baseC * max 0 (1 - t * 0.95)) [0.92, 0.80, 0.62, 0.42, 0.18]
                  @ [baseC]
                  @ map (\<lambda>t. baseC * max 0 (1 - t * 0.65)) [0.18, 0.38, 0.56, 0.76, 0.92]"
    using nonneg by (simp add: cs_def max_def)
  have ramp: "generateShades hex =
      map (\<lambda>(shade, L, C). (shade, if shade = 500 then hex else oklchToHex L C baseH))
        (zip SHADES (zip ls cs))"
    unfolding ls_def scaled by (rule generateShades_ramp [OF assms])
  have rise: "sorted (take 6 cs)"
    using nonneg by (auto simp: cs_def max_def mult_le_cancel_left_pos)
  have fall: "sorted_wrt (\<lambda>a b. b \<le> a) (drop 5 cs)"
    using nonneg by (auto simp: cs_def max_def mult_le_cancel_left_pos)
  have bound: "\<forall>c \<in> set cs. 0 \<le> c \<and> c \<le> baseC"
    using nonneg by (auto simp: cs_def max_def mult_le_cancel_left_pos)
  show ?thesis
    by (intro exI [of _ ls] exI [of _ cs] conjI) (rule ramp ls_def cs_def nonneg rise fall bound)+
qed

theorem chroma_attenuation_witness:
  "\<exists>baseL baseC baseH ls cs.
      hexToOklch ''#0000ff'' = Some (baseL, baseC, baseH)
      \<and> 0.3 < baseC
      \<and> generateShades ''#0000ff'' =
          map (\<lambda>(shade, L, C). (shade, if shade = 500 then ''#0000ff'' else oklchToHex L C baseH))
            (zip SHADES (zip ls cs))
      \<and> cs = map (\<lambda>t. max 0 (baseC * (1 - t * 0.95))) [0.92, 0.80, 0.62, 0.42, 0.18]
             @ [baseC]
             @ map (\<lambda>t. max 0 (baseC * (1 - t * 0.65))) [0.18, 0.38, 0.56, 0.76, 0.92]
      \<and> sorted (take 6 cs)
      \<and> sorted_wrt (\<lambda>a b. b \<le> a) (drop 5 cs)
      \<and> (\<forall>c \<in> set cs. 0 \<le> c \<and> c \<le> baseC)"
proof -
  obtain baseL baseC baseH where blue: "hexToOklch ''#0000ff'' = Some (baseL, baseC, baseH)"
    and chroma: "0.3 < baseC"
    using hexToOklch_blue by blast
  show ?thesis
    using chroma_attenuation [OF blue] blue chroma by blast
qed

subsection \<open>Hex strings\<close>

text \<open>The digit tables of \<^verbatim>\<open>parseInt\<close> and \<^verbatim>\<open>toString(16)\<close> agree up to case.\<close>

lemma hexDigit_cases:
  assumes "hexDigit c = Some d"
  shows "(c, d) \<in> set (zip ''0123456789abcdefABCDEF''
           [0, 1, 2, 3, 4, 5, 6, 7, 8, 9, 10, 11, 12, 13, 14, 15, 10, 11, 12, 13, 14, 15])"
  using assms unfolding hexDigit_def by (rule map_of_SomeD)

lemma hexDigit_table:
  "\<forall>(c, d) \<in> set (zip ''0123456789abcdefABCDEF''
       [0, 1, 2, 3, 4, 5, 6, 7, 8, 9, 10, 11, 12, 13, 14, 15, 10, 11, 12, 13, 14, 15 :: nat]).
     d < 16 \<and> hexChar d = lower_char c \<and> \<not> isWhiteSpace c
     \<and> c \<noteq> CHR ''-'' \<and> c \<noteq> CHR ''+'' \<and> c \<noteq> CHR ''x'' \<and> c \<noteq> CHR ''X''"
  by code_simp

lemma hexDigit_props:
  assumes "hexDigit c = Some d"
  shows "d < 16" and "hexChar d = lower_char c" and "\<not> isWhiteSpace c"
    and "c \<noteq> CHR ''-''" and "c \<noteq> CHR ''+''" and "c \<noteq> CHR ''x''" and "c \<noteq> CHR ''X''"
  using hexDigit_cases [OF assms] hexDigit_table by blast+

lemma hexChar_table:
  "\<forall>d \<in> set [0..<16]. hexDigit (hexChar d) = Some d \<and> lower_char (hexChar d) = hexChar d"
  by code_simp

lemma hexDigit_hexChar: "d < 16 \<Longrightarrow> hexDigit (hexChar d) = Some d"
  using hexChar_table by simp

lemma lower_hexChar: "d < 16 \<Longrightarrow> lower_char (hexChar d) = hexChar d"
  using hexChar_table by simp

lemma parseInt16_pair:
  assumes "hexDigit c1 = Some d1" and "hexDigit c2 = Some d2"
  shows "parseInt16 [c1, c2] = Some (int (16 * d1 + d2))"
  using assms hexDigit_props(3-7) [OF assms(1)] hexDigit_props(3-7) [OF assms(2)]
  by (simp add: parseInt16_def Let_def)

lemma clamp_of_int: "0 \<le> n \<Longrightarrow> n \<le> 255 \<Longrightarrow> clamp (real_of_int n) = n"
proof -
  assume "0 \<le> n" "n \<le> 255"
  moreover have "js_round (real_of_int n) = n"
    unfolding js_round_def by linarith
  ultimately show ?thesis by (simp add: clamp_def)
qed

lemma hexByte_of_nat:
  assumes "n \<le> 255"
  shows "hexByte (Some (real_of_int (int n))) = padStart 2 (CHR ''0'') (toString16_nat n)"
proof -
  have "clamp (real_of_int (int n)) = int n"
    using assms by (intro clamp_of_int) auto
  then show ?thesis
    by (simp add: hexByte_def toString16_def)
qed

lemma toString16_nat_pair:
  assumes "d1 < 16" and "d2 < 16"
  shows "padStart 2 (CHR ''0'') (toString16_nat (16 * d1 + d2)) = [hexChar d1, hexChar d2]"
proof (cases "d1 = 0")
  case True
  have "hexChar 0 = CHR ''0''" by (simp add: hexChar_def)
  then show ?thesis
    using True assms by (simp add: toString16_nat.simps padStart_def)
next
  case False
  define n where "n = 16 * d1 + d2"
  have n: "\<not> n < 16" "n div 16 = d1" "n mod 16 = d2"
    using False assms by (auto simp: n_def)
  have "toString16_nat n = toString16_nat d1 @ [hexChar d2]"
    using n by (subst toString16_nat.simps) simp
  also have "toString16_nat d1 = [hexChar d1]"
    using assms by (subst toString16_nat.simps) simp
  finally show ?thesis
    by (simp add: padStart_def n_def)
qed

lemma hexByte_pair:
  assumes "d1 < 16" and "d2 < 16"
  shows "hexByte (Some (real_of_int (int (16 * d1 + d2)))) = [hexChar d1, hexChar d2]"
proof -
  have "16 * d1 + d2 \<le> 255" using assms by simp
  then show ?thesis
    using hexByte_of_nat [of "16 * d1 + d2"] toString16_nat_pair [OF assms] by simp
qed

lemma byte_round_trip:
  assumes "hexDigit c1 = Some d1" and "hexDigit c2 = Some d2"
  shows "\<exists>n. parseInt16 [c1, c2] = Some n \<and> 0 \<le> n \<and> n \<le> 255
            \<and> hexByte (Some (real_of_int n)) = [lower_char c1, lower_char c2]"
proof -
  have d: "d1 < 16" "d2 < 16"
    using hexDigit_props(1) assms by blast+
  have "hexByte (Some (real_of_int (int (16 * d1 + d2)))) = [lower_char c1, lower_char c2]"
    using hexByte_pair [OF d] hexDigit_props(2) [OF assms(1)] hexDigit_props(2) [OF assms(2)]
    by simp
  then show ?thesis
    using parseInt16_pair [OF assms] d by (intro exI [of _ "int (16 * d1 + d2)"]) auto
qed

lemma isValidHex_six:
  assumes "isValidHex hex" and "length hex = 7"
  shows "\<exists>c1 c2 c3 c4 c5 c6. hex = [CHR ''#'', c1, c2, c3, c4, c5, c6]
           \<and> (\<forall>c \<in> {c1, c2, c3, c4, c5, c6}. hexDigit c \<noteq> None)"
proof -
  obtain ds where hex: "hex = CHR ''#'' # ds" and ds: "list_all (\<lambda>d. hexDigit d \<noteq> None) ds"
    using assms(1) by (auto simp: isValidHex_def split: list.splits)
  have "length ds = 6" using assms(2) hex by simp
  then obtain c1 c2 c3 c4 c5 c6 where "ds = [c1, c2, c3, c4, c5, c6]"
    by (auto simp: length_Suc_conv eval_nat_numeral)
  then show ?thesis using hex ds by auto
qed

lemma hex_round_trip:
  assumes "isValidHex hex" and "length hex = 7"
  shows "\<exists>r g b. hexToRgb hex = (Some r, Some g, Some b)
           \<and> 0 \<le> r \<and> r \<le> 255 \<and> 0 \<le> g \<and> g \<le> 255 \<and> 0 \<le> b \<and> b \<le> 255
           \<and> rgbToHex (Some (real_of_int r)) (Some (real_of_int g)) (Some (real_of_int b))
               = toLowerCase hex"
proof -
  obtain c1 c2 c3 c4 c5 c6 where hex: "hex = [CHR ''#'', c1, c2, c3, c4, c5, c6]"
    and dig: "\<forall>c \<in> {c1, c2, c3, c4, c5, c6}. hexDigit c \<noteq> None"
    using isValidHex_six [OF assms] by blast
  obtain r where r: "parseInt16 [c1, c2] = Some r" "0 \<le> r" "r \<le> 255"
      "hexByte (Some (real_of_int r)) = [lower_char c1, lower_char c2]"
    using dig byte_round_trip [of c1 _ c2] by auto
  obtain g where g: "parseInt16 [c3, c4] = Some g" "0 \<le> g" "g \<le> 255"
      "hexByte (Some (real_of_int g)) = [lower_char c3, lower_char c4]"
    using dig byte_round_trip [of c3 _ c4] by auto
  obtain b where b: "parseInt16 [c5, c6] = Some b" "0 \<le> b" "b \<le> 255"
      "hexByte (Some (real_of_int b)) = [lower_char c5, lower_char c6]"
    using dig byte_round_trip [of c5 _ c6] by auto
  have "hexToRgb hex = (Some r, Some g, Some b)"
    by (simp add: hexToRgb_def hex r g b)
  moreover have "lower_char (CHR ''#'') = CHR ''#''"
    by (simp add: lower_char_def)
  then have "rgbToHex (Some (real_of_int r)) (Some (real_of_int g)) (Some (real_of_int b))
      = toLowerCase hex"
    by (simp add: rgbToHex_def toLowerCase_def hex r g b)
  ultimately show ?thesis using r g b by blast
qed


lemma clamp_range: "0 \<le> clamp v \<and> clamp v \<le> 255"
  by (simp add: clamp_def)

lemma clamp_then_round: "clamp v = js_round (max 0 (min 255 v))"
proof -
  consider "v < 0" | "0 \<le> v \<and> v \<le> 255" | "255 < v" by linarith
  then show ?thesis
  proof cases
    case 1
    have "\<lfloor>v + 1 / 2\<rfloor> \<le> 0" using 1 by (simp add: floor_le_iff)
    then have "clamp v = 0" by (simp add: clamp_def js_round_def)
    moreover have "max 0 (min 255 v) = 0" using 1 by simp
    ultimately show ?thesis by (simp add: js_round_def)
  next
    case 2
    have "0 \<le> \<lfloor>v + 1 / 2\<rfloor>" "\<lfloor>v + 1 / 2\<rfloor> \<le> 255"
      using 2 by (simp_all add: floor_le_iff le_floor_iff)
    then have "clamp v = \<lfloor>v + 1 / 2\<rfloor>" by (simp add: clamp_def js_round_def)
    moreover have "max 0 (min 255 v) = v" using 2 by simp
    ultimately show ?thesis by (simp add: js_round_def)
  next
    case 3
    have "255 \<le> \<lfloor>v + 1 / 2\<rfloor>" using 3 by (simp add: le_floor_iff)
    then have "clamp v = 255" by (simp add: clamp_def js_round_def)
    moreover have "max 0 (min 255 v) = 255" using 3 by simp
    ultimately show ?thesis by (simp add: js_round_def)
  qed
qed

lemma hexByte_shape:
  "\<exists>d1 d2. d1 < 16 \<and> d2 < 16 \<and> clamp v = int (16 * d1 + d2)
           \<and> hexByte (Some v) = [hexChar d1, hexChar d2]"
proof -
  define n where "n = nat (clamp v)"
  have n: "clamp v = int n" "n \<le> 255"
    using clamp_range [of v] by (auto simp: n_def)
  have split: "n = 16 * (n div 16) + n mod 16" by simp
  have d: "n div 16 < 16" "n mod 16 < 16" using n(2) by auto
  have "hexByte (Some v) = padStart 2 (CHR ''0'') (toString16_nat n)"
    by (simp add: hexByte_def toString16_def n(1))
  also have "\<dots> = padStart 2 (CHR ''0'') (toString16_nat (16 * (n div 16) + n mod 16))"
    by simp
  also have "\<dots> = [hexChar (n div 16), hexChar (n mod 16)]"
    by (rule toString16_nat_pair [OF d])
  finally show ?thesis
    using d n(1) split by (intro exI [of _ "n div 16"] exI [of _ "n mod 16"]) simp
qed

lemma rgbToHex_shape:
  "length (rgbToHex (Some x) (Some y) (Some z)) = 7
   \<and> isValidHex (rgbToHex (Some x) (Some y) (Some z))
   \<and> toLowerCase (rgbToHex (Some x) (Some y) (Some z)) = rgbToHex (Some x) (Some y) (Some z)
   \<and> hexToRgb (rgbToHex (Some x) (Some y) (Some z)) = (Some (clamp x), Some (clamp y), Some (clamp z))"
proof -
  obtain a1 a2 where a: "a1 < 16" "a2 < 16" "clamp x = int (16 * a1 + a2)"
      "hexByte (Some x) = [hexChar a1, hexChar a2]"
    using hexByte_shape [of x] by blast
  obtain b1 b2 where b: "b1 < 16" "b2 < 16" "clamp y = int (16 * b1 + b2)"
      "hexByte (Some y) = [hexChar b1, hexChar b2]"
    using hexByte_shape [of y] by blast
  obtain c1 c2 where c: "c1 < 16" "c2 < 16" "clamp z = int (16 * c1 + c2)"
      "hexByte (Some z) = [hexChar c1, hexChar c2]"
    using hexByte_shape [of z] by blast
  have out: "rgbToHex (Some x) (Some y) (Some z) =
      [CHR ''#'', hexChar a1, hexChar a2, hexChar b1, hexChar b2, hexChar c1, hexChar c2]"
    by (simp add: rgbToHex_def a(4) b(4) c(4))
  have hash: "lower_char (CHR ''#'') = CHR ''#''"
    by (simp add: lower_char_def)
  have "parseInt16 [hexChar a1, hexChar a2] = Some (clamp x)"
    using parseInt16_pair [OF hexDigit_hexChar [OF a(1)] hexDigit_hexChar [OF a(2)]] a(3) by simp
  moreover have "parseInt16 [hexChar b1, hexChar b2] = Some (clamp y)"
    using parseInt16_pair [OF hexDigit_hexChar [OF b(1)] hexDigit_hexChar [OF b(2)]] b(3) by simp
  moreover have "parseInt16 [hexChar c1, hexChar c2] = Some (clamp z)"
    using parseInt16_pair [OF hexDigit_hexChar [OF c(1)] hexDigit_hexChar [OF c(2)]] c(3) by simp
  ultimately have "hexToRgb (rgbToHex (Some x) (Some y) (Some z)) =
      (Some (clamp x), Some (clamp y), Some (clamp z))"
    unfolding out by (simp add: hexToRgb_def)
  moreover have "isValidHex (rgbToHex (Some x) (Some y) (Some z))"
    unfolding out using a b c by (simp add: isValidHex_def hexDigit_hexChar)
  moreover have "toLowerCase (rgbToHex (Some x) (Some y) (Some z)) = rgbToHex (Some x) (Some y) (Some z)"
    unfolding out using a b c by (simp add: toLowerCase_def hash lower_hexChar)
  ultimately show ?thesis by (simp add: out)
qed

text \<open>
  Claim C5 as stated (every valid 6-digit hex string comes back identical) does not hold:
  the validator accepts upper-case digits, and \<^verbatim>\<open>rgbToHex\<close> prints lower-case ones, so
  \<^verbatim>\<open>#AA5420\<close> comes back as \<^verbatim>\<open>#aa5420\<close>.
\<close>

theorem uppercase_hex_not_reproduced:
  "isValidHex ''#AA5420'' \<and> length ''#AA5420'' = 7
   \<and> hexToRgb ''#AA5420'' = (Some 170, Some 84, Some 32)
   \<and> rgbToHex (Some 170) (Some 84) (Some 32) = ''#aa5420''
   \<and> ''#aa5420'' \<noteq> ''#AA5420''"
  by code_simp

text \<open>
  Claim C5, amended (hex round trip): for every valid 6-digit hex string, \<^verbatim>\<open>hexToRgb\<close>
  and then \<^verbatim>\<open>rgbToHex\<close> give the string in lower case, which is the identical string when
  the input is in lower case. For all numbers \<^verbatim>\<open>rgbToHex\<close> emits a \<^verbatim>\<open>#\<close> and six
  lower-case hex digits, which read back as the three channels rounded to the nearest
  integer and clamped to \<open>[0, 255]\<close>; rounding and clamping commute.
\<close>

theorem hex_round_trip_lower_case:
  "(isValidHex hex \<and> length hex = 7 \<longrightarrow>
      (\<exists>r g b. hexToRgb hex = (Some r, Some g, Some b)
         \<and> rgbToHex (Some (real_of_int r)) (Some (real_of_int g)) (Some (real_of_int b))
             = toLowerCase hex))
   \<and> (isValidHex hex \<and> length hex = 7 \<and> toLowerCase hex = hex \<longrightarrow>
      (\<exists>r g b. hexToRgb hex = (Some r, Some g, Some b)
         \<and> rgbToHex (Some (real_of_int r)) (Some (real_of_int g)) (Some (real_of_int b)) = hex))
   \<and> length (rgbToHex (Some x) (Some y) (Some z)) = 7
   \<and> isValidHex (rgbToHex (Some x) (Some y) (Some z))
   \<and> toLowerCase (rgbToHex (Some x) (Some y) (Some z)) = rgbToHex (Some x) (Some y) (Some z)
   \<and> hexToRgb (rgbToHex (Some x) (Some y) (Some z)) = (Some (clamp x), Some (clamp y), Some (clamp z))
   \<and> clamp x = js_round (max 0 (min 255 x))
   \<and> 0 \<le> clamp x \<and> clamp x \<le> 255"
proof -
  have "isValidHex hex \<and> length hex = 7 \<longrightarrow>
      (\<exists>r g b. hexToRgb hex = (Some r, Some g, Some b)
         \<and> rgbToHex (Some (real_of_int r)) (Some (real_of_int g)) (Some (real_of_int b))
             = toLowerCase hex)"
    using hex_round_trip [of hex] by blast
  then show ?thesis
    using rgbToHex_shape [of x y z] clamp_then_round [of x] clamp_range [of x] by auto
qed

theorem hex_round_trip_lower_case_witness:
  "(\<exists>r g b. hexToRgb ''#AA5420'' = (Some r, Some g, Some b)
      \<and> rgbToHex (Some (real_of_int r)) (Some (real_of_int g)) (Some (real_of_int b)) = ''#aa5420'')
   \<and> (\<exists>r g b. hexToRgb ''#aa5420'' = (Some r, Some g, Some b)
      \<and> rgbToHex (Some (real_of_int r)) (Some (real_of_int g)) (Some (real_of_int b)) = ''#aa5420'')"
proof -
  have v: "isValidHex ''#AA5420''" "isValidHex ''#aa5420''"
    "toLowerCase ''#AA5420'' = ''#aa5420''" "toLowerCase ''#aa5420'' = ''#aa5420''"
    by code_simp+
  show ?thesis
    using hex_round_trip_lower_case [of "''#AA5420''"] hex_round_trip_lower_case [of "''#aa5420''"] v
    by simp
qed

subsection \<open>The clamp of the inverse path\<close>

lemma oklchToRgb_linear:
  "oklchToRgb L C H =
     (case oklchToLinearRgb L C H of
        (lr, lg, lb) \<Rightarrow> (linearToSrgb lr, linearToSrgb lg, linearToSrgb lb))"
  by (simp add: oklchToRgb_def oklchToLinearRgb_def Let_def)

lemma linearToSrgb_clamps: "linearToSrgb c = linearToSrgb_unclamped (max 0 (min 1 c))"
  by (simp add: linearToSrgb_def linearToSrgb_unclamped_def Let_def)

lemma linearToSrgb_in_gamut:
  "0 \<le> c \<Longrightarrow> c \<le> 1 \<Longrightarrow> linearToSrgb c = linearToSrgb_unclamped c"
  by (simp add: linearToSrgb_clamps)

lemma linearToSrgb_below: "c \<le> 0 \<Longrightarrow> linearToSrgb c = 0"
  by (simp add: linearToSrgb_def Let_def max_def)

lemma linearToSrgb_above: "1 \<le> c \<Longrightarrow> linearToSrgb c = 255"
  by (simp add: linearToSrgb_def Let_def min_def)

lemma unclamped_below: "c < 0 \<Longrightarrow> linearToSrgb_unclamped c < 0"
  by (simp add: linearToSrgb_unclamped_def mult_less_0_iff)

lemma unclamped_above:
  assumes "1 \<le> c"
  shows "255 \<le> linearToSrgb_unclamped c"
proof -
  have "1 \<le> c powr (1 / 2.4)"
    using assms by (intro ge_one_powr_ge_zero) simp_all
  then have "1 \<le> 1.055 * c powr (1 / 2.4) - 0.055" by simp
  then show ?thesis
    using assms by (simp add: linearToSrgb_unclamped_def)
qed

lemma clamp_negative: "v \<le> 0 \<Longrightarrow> clamp v = 0"
proof -
  assume "v \<le> 0"
  then have "\<lfloor>v + 1 / 2\<rfloor> \<le> 0" by (simp add: floor_le_iff)
  then show ?thesis by (simp add: clamp_def js_round_def)
qed

lemma clamp_large: "255 \<le> v \<Longrightarrow> clamp v = 255"
proof -
  assume "255 \<le> v"
  then have "255 \<le> \<lfloor>v + 1 / 2\<rfloor>" by (simp add: le_floor_iff)
  then show ?thesis by (simp add: clamp_def js_round_def)
qed

lemma clamp_linearToSrgb: "clamp (linearToSrgb c) = clamp (linearToSrgb_unclamped c)"
proof -
  consider "c < 0" | "0 \<le> c \<and> c \<le> 1" | "1 < c" by linarith
  then show ?thesis
  proof cases
    case 1
    then show ?thesis
      using unclamped_below [of c] by (simp add: linearToSrgb_below clamp_negative)
  next
    case 2
    then show ?thesis by (simp add: linearToSrgb_in_gamut)
  next
    case 3
    then show ?thesis
      using unclamped_above [of c] by (simp add: linearToSrgb_above clamp_large)
  qed
qed

lemma hexByte_linearToSrgb:
  "hexByte (Some (linearToSrgb c)) = hexByte (Some (linearToSrgb_unclamped c))"
  by (simp add: hexByte_def clamp_linearToSrgb)

lemma oklchToHex_unclamped:
  "oklchToHex L C H =
     (case oklchToRgb_unclamped L C H of (r, g, b) \<Rightarrow> rgbToHex (Some r) (Some g) (Some b))"
  by (simp add: oklchToHex_def oklchToRgb_linear oklchToRgb_unclamped_def rgbToHex_def
      hexByte_linearToSrgb split: prod.splits)

lemma linearToSrgb_range: "0 \<le> linearToSrgb c \<and> linearToSrgb c \<le> 255"
proof -
  define x where "x = max 0 (min 1 c)"
  have x: "0 \<le> x" "x \<le> 1" by (simp_all add: x_def)
  show ?thesis
  proof (cases "x \<le> 0.0031308")
    case True
    then show ?thesis
      using x by (simp add: linearToSrgb_def Let_def flip: x_def)
  next
    case False
    have "x powr (1 / 2.4) \<le> 1"
      using x by (simp add: powr_le1)
    moreover have "0.05595 \<le> x powr (1 / 2.4)"
    proof -
      have "(0.05595::real)\<^sup>2 \<le> x" using False by (simp add: power2_eq_square)
      then have "0.05595 \<le> sqrt x" by (rule real_le_rsqrt)
      also have "\<dots> = x powr (1 / 2)" using x by (simp add: powr_half_sqrt)
      also have "\<dots> \<le> x powr (1 / 2.4)"
        using x by (intro powr_mono') simp_all
      finally show ?thesis .
    qed
    ultimately show ?thesis
      using False by (simp add: linearToSrgb_def Let_def flip: x_def)
  qed
qed

lemma linear_05_04_0:
  "fst (snd (oklchToLinearRgb 0.5 0.4 0)) < 0"
  by (simp add: oklchToLinearRgb_def Let_def power3_eq_cube)

text \<open>
  Claim C6 as stated (intermediate linear values are not clamped, so \<^verbatim>\<open>oklchToRgb\<close> equals
  the unclamped composition) does not hold: \<^verbatim>\<open>linearToSrgb\<close> starts with
  \<^verbatim>\<open>Math.max(0, Math.min(1, c))\<close>. For \<open>L = 0.5\<close>, \<open>C = 0.4\<close>, \<open>H = 0\<close> the linear green
  value is negative; the code returns 0 for green and the unclamped composition a negative
  number.
\<close>

theorem linear_values_are_clamped:
  "fst (snd (oklchToLinearRgb 0.5 0.4 0)) < 0
   \<and> fst (snd (oklchToRgb 0.5 0.4 0)) = 0
   \<and> fst (snd (oklchToRgb_unclamped 0.5 0.4 0)) < 0
   \<and> oklchToRgb 0.5 0.4 0 \<noteq> oklchToRgb_unclamped 0.5 0.4 0"
proof -
  obtain lr lg lb where lin: "oklchToLinearRgb 0.5 0.4 0 = (lr, lg, lb)"
    by (metis prod_cases3)
  have neg: "lg < 0" using linear_05_04_0 unfolding lin by simp
  have a: "fst (snd (oklchToRgb 0.5 0.4 0)) = 0"
    unfolding oklchToRgb_linear lin using neg by (simp add: linearToSrgb_below)
  have b: "fst (snd (oklchToRgb_unclamped 0.5 0.4 0)) < 0"
    unfolding oklchToRgb_unclamped_def lin using neg by (simp add: unclamped_below)
  have "oklchToRgb 0.5 0.4 0 \<noteq> oklchToRgb_unclamped 0.5 0.4 0"
    using a b by (metis less_irrefl)
  then show ?thesis using linear_05_04_0 a b by blast
qed

text \<open>
  Claim C6, amended (where the inverse path clamps): \<^verbatim>\<open>oklchToRgb\<close> is the composition of
  the inverse matrices, the cube and the inverse transfer function with each linear value
  clamped to \<open>[0, 1]\<close> first; it equals the unclamped composition when the three linear values
  lie in \<open>[0, 1]\<close>, its channels always lie in \<open>[0, 255]\<close>, and after the byte packing of
  \<^verbatim>\<open>rgbToHex\<close> the code and the unclamped composition give the same hex string for every
  input.
\<close>

theorem clamp_inside_linearToSrgb:
  "(case oklchToLinearRgb L C H of
      (lr, lg, lb) \<Rightarrow>
        oklchToRgb L C H = (linearToSrgb_unclamped (max 0 (min 1 lr)),
                            linearToSrgb_unclamped (max 0 (min 1 lg)),
                            linearToSrgb_unclamped (max 0 (min 1 lb)))
        \<and> (0 \<le> lr \<and> lr \<le> 1 \<and> 0 \<le> lg \<and> lg \<le> 1 \<and> 0 \<le> lb \<and> lb \<le> 1 \<longrightarrow>
             oklchToRgb L C H = oklchToRgb_unclamped L C H))
   \<and> (case oklchToRgb L C H of
        (r, g, b) \<Rightarrow> 0 \<le> r \<and> r \<le> 255 \<and> 0 \<le> g \<and> g \<le> 255 \<and> 0 \<le> b \<and> b \<le> 255)
   \<and> oklchToHex L C H =
       (case oklchToRgb_unclamped L C H of (r, g, b) \<Rightarrow> rgbToHex (Some r) (Some g) (Some b))"
  using oklchToHex_unclamped [of L C H]
  by (auto simp: oklchToRgb_linear oklchToRgb_unclamped_def linearToSrgb_range
      linearToSrgb_in_gamut linearToSrgb_clamps [symmetric] split: prod.splits)

lemma oklchToLinearRgb_gray: "oklchToLinearRgb (1 / 2) 0 0 = (1 / 8, 1 / 8, 1 / 8)"
  by (simp add: oklchToLinearRgb_def Let_def power3_eq_cube)

theorem clamp_inside_linearToSrgb_witness:
  "oklchToRgb (1 / 2) 0 0 = oklchToRgb_unclamped (1 / 2) 0 0"
  using clamp_inside_linearToSrgb [of "1 / 2" 0 0] by (auto simp: oklchToLinearRgb_gray)

subsection \<open>Round trips through HSL and OKLCH\<close>

text \<open>
  In the model the two round trips reproduce the channels exactly. For HSL the three calls of
  \<^verbatim>\<open>hue2rgb\<close> return the maximum, the minimum and the middle channel of the input. For
  OKLCH the cosine and sine undo \<^verbatim>\<open>Math.atan2\<close> exactly, the cube undoes the cube root, and
  what is left is the distance of the ten-digit inverse matrices from the true inverses: the
  linear channels come back within \<open>2 \<cdot> 10\<^sup>-\<^sup>6\<close>, which the gamma curve cannot
  carry across a rounding boundary.
\<close>

subsubsection \<open>The polar form of the hue\<close>

lemma sqrt_sum_squares_factor:
  assumes "A \<noteq> 0"
  shows "sqrt (A * A + B * B) = \<bar>A\<bar> * sqrt (1 + (B / A)\<^sup>2)"
proof -
  have "A * A + B * B = A\<^sup>2 * (1 + (B / A)\<^sup>2)"
    using assms by (simp add: field_simps power2_eq_square)
  then show ?thesis
    by (simp add: real_sqrt_mult)
qed

lemma polar_arctan:
  assumes "A \<noteq> 0"
  shows "\<bar>A\<bar> * sqrt (1 + (B / A)\<^sup>2) * cos (arctan (B / A)) = \<bar>A\<bar>"
    and "\<bar>A\<bar> * sqrt (1 + (B / A)\<^sup>2) * sin (arctan (B / A)) = \<bar>A\<bar> * (B / A)"
proof -
  have pos: "0 < sqrt (1 + (B / A)\<^sup>2)"
    by (simp add: add_pos_nonneg)
  show "\<bar>A\<bar> * sqrt (1 + (B / A)\<^sup>2) * cos (arctan (B / A)) = \<bar>A\<bar>"
    using pos by (simp add: cos_arctan)
  show "\<bar>A\<bar> * sqrt (1 + (B / A)\<^sup>2) * sin (arctan (B / A)) = \<bar>A\<bar> * (B / A)"
    using pos by (simp add: sin_arctan)
qed

lemma polar_cos: "sqrt (A * A + B * B) * cos (atan2 B A) = A"
proof -
  consider "0 < A" | "A < 0" | "A = 0" by linarith
  then show ?thesis
  proof cases
    case 1
    then show ?thesis
      using polar_arctan(1) [of A B] by (simp add: atan2_def sqrt_sum_squares_factor)
  next
    case 2
    then have "sqrt (A * A + B * B) * cos (arctan (B / A)) = - A"
      using polar_arctan(1) [of A B] by (simp add: sqrt_sum_squares_factor)
    then show ?thesis
      using 2 by (simp add: atan2_def cos_diff cos_add)
  next
    case 3
    then show ?thesis by (simp add: atan2_def)
  qed
qed

lemma polar_sin: "sqrt (A * A + B * B) * sin (atan2 B A) = B"
proof -
  consider "0 < A" | "A < 0" | "A = 0" by linarith
  then show ?thesis
  proof cases
    case 1
    then show ?thesis
      using polar_arctan(2) [of A B] by (simp add: atan2_def sqrt_sum_squares_factor)
  next
    case 2
    then have "sqrt (A * A + B * B) * sin (arctan (B / A)) = - B"
      using polar_arctan(2) [of A B] by (simp add: sqrt_sum_squares_factor)
    then show ?thesis
      using 2 by (simp add: atan2_def sin_diff sin_add)
  next
    case 3
    then show ?thesis by (simp add: atan2_def)
  qed
qed

lemma hue_radians:
  fixes t :: real
  defines "H0 \<equiv> t * 180 / pi"
  defines "H \<equiv> (if H0 < 0 then H0 + 360 else H0)"
  shows "cos (H * pi / 180) = cos t" and "sin (H * pi / 180) = sin t"
proof -
  have a: "H0 * pi / 180 = t"
    by (simp add: H0_def)
  have b: "(H0 + 360) * pi / 180 = t + 2 * pi"
    unfolding H0_def by (simp add: field_simps)
  have "H * pi / 180 = t \<or> H * pi / 180 = t + 2 * pi"
    unfolding H_def using a b by (cases "H0 < 0") auto
  then show "cos (H * pi / 180) = cos t" and "sin (H * pi / 180) = sin t"
    by (metis cos_periodic, metis sin_periodic)
qed

subsubsection \<open>The gamma curve between neighbouring bytes\<close>

lemma powr_12_5_split:
  fixes x :: real
  assumes "0 < x"
  shows "x powr (12 / 5) = x\<^sup>2 * x powr (2 / 5)"
proof -
  have "x powr (12 / 5) = x powr (2 + 2 / 5)" by simp
  also have "\<dots> = x powr 2 * x powr (2 / 5)" by (rule powr_add)
  finally show ?thesis using assms by simp
qed

lemma powr_gap:
  fixes b h :: real
  assumes "0 < b" and "b \<le> 1" and "0 \<le> h"
  shows "b powr (12 / 5) + 2 * h * b\<^sup>2 \<le> (b + h) powr (12 / 5)"
proof -
  have low: "b \<le> b powr (2 / 5)"
    using powr_mono' [of "2 / 5" 1 b] assms by simp
  have mono: "b powr (2 / 5) \<le> (b + h) powr (2 / 5)"
    using assms by (intro powr_mono2) simp_all
  have "b powr (12 / 5) + 2 * h * b\<^sup>2 = b\<^sup>2 * b powr (2 / 5) + (2 * h * b) * b"
    using assms by (simp add: powr_12_5_split power2_eq_square)
  also have "\<dots> \<le> b\<^sup>2 * b powr (2 / 5) + (2 * h * b) * b powr (2 / 5)"
    using low assms by (intro add_left_mono mult_left_mono) simp_all
  also have "\<dots> \<le> b\<^sup>2 * b powr (2 / 5) + (2 * h * b + h\<^sup>2) * b powr (2 / 5)"
    by (intro add_left_mono mult_right_mono) simp_all
  also have "\<dots> = (b + h)\<^sup>2 * b powr (2 / 5)"
    by (simp add: power2_eq_square algebra_simps)
  also have "\<dots> \<le> (b + h)\<^sup>2 * (b + h) powr (2 / 5)"
    using mono by (intro mult_left_mono) simp_all
  also have "\<dots> = (b + h) powr (12 / 5)"
    using assms by (subst powr_12_5_split [of "b + h"]) simp_all
  finally show ?thesis .
qed

lemma powr_12_5_lower:
  fixes b :: real
  assumes "93 / 1000 \<le> b"
  shows "32 / 10000 \<le> b powr (12 / 5)"
proof -
  have "(37 / 100 :: real) = ((37 / 100) ^ 5) powr (1 / 5)"
    by (simp add: powr_powr flip: powr_numeral)
  also have "\<dots> \<le> ((93 / 1000)\<^sup>2) powr (1 / 5)"
    by (intro powr_mono2) (simp_all add: power2_eq_square eval_nat_numeral)
  also have "\<dots> = (93 / 1000) powr (2 / 5)"
    by (simp add: powr_powr flip: powr_numeral)
  finally have r: "(37 / 100 :: real) \<le> (93 / 1000) powr (2 / 5)" .
  have "(32 / 10000 :: real) \<le> (93 / 1000)\<^sup>2 * (37 / 100)"
    by (simp add: power2_eq_square)
  also have "\<dots> \<le> (93 / 1000)\<^sup>2 * (93 / 1000) powr (2 / 5)"
    using r by (intro mult_left_mono) simp_all
  also have "\<dots> = (93 / 1000) powr (12 / 5)"
    by (subst powr_12_5_split [of "93 / 1000"]) simp_all
  also have "\<dots> \<le> b powr (12 / 5)"
    using assms by (intro powr_mono2) simp_all
  finally show ?thesis .
qed

lemma powr_12_5_inverse:
  fixes u :: real
  assumes "0 < u"
  shows "(u powr (12 / 5)) powr (5 / 12) = u"
  using assms by (simp add: powr_powr)

lemma srgbToLinear_int_low:
  assumes "0 \<le> r" and "r \<le> 10"
  shows "srgbToLinear (real_of_int r) = real_of_int r / 255 / (1292 / 100)"
proof -
  have "real_of_int r \<le> 10" using assms by simp
  then have "real_of_int r / 255 \<le> 4045 / 100000" by simp
  then show ?thesis by (simp add: srgbToLinear_def Let_def)
qed

lemma srgbToLinear_int_high:
  assumes "11 \<le> r"
  shows "srgbToLinear (real_of_int r) =
         ((real_of_int r / 255 + 55 / 1000) / (1055 / 1000)) powr (12 / 5)"
proof -
  have "11 \<le> real_of_int r" using assms by simp
  then have "\<not> real_of_int r / 255 \<le> 4045 / 100000" by simp
  then show ?thesis by (simp add: srgbToLinear_def Let_def)
qed

lemma gamma_stable_low:
  assumes "0 \<le> r" and "r \<le> 10"
    and "\<bar>x - srgbToLinear (real_of_int r)\<bar> \<le> 2 / 1000000"
  shows "js_round (linearToSrgb x) = r"
proof -
  define t where "t = real_of_int r"
  have t: "0 \<le> t" "t \<le> 10" using assms by (simp_all add: t_def)
  have x: "\<bar>x - t / 255 / (1292 / 100)\<bar> \<le> 2 / 1000000"
    using assms srgbToLinear_int_low [of r] by (simp add: t_def)
  define c where "c = max 0 (min 1 x)"
  have small: "x \<le> 31308 / 10000000" using x t by argo
  then have c: "c = max 0 x" by (simp add: c_def)
  then have cs: "c \<le> 31308 / 10000000" using small by simp
  have v: "linearToSrgb x = c * (1292 / 100) * 255"
    using cs by (simp add: linearToSrgb_def Let_def flip: c_def)
  have near: "t - 1 / 2 \<le> c * (1292 / 100) * 255 \<and> c * (1292 / 100) * 255 < t + 1 / 2"
  proof (cases "0 \<le> x")
    case True
    then have "c = x" by (simp add: c)
    then show ?thesis using x by argo
  next
    case False
    then have c0: "c = 0" by (simp add: c)
    have "t < 1" using False x by argo
    then have "r < 1" by (simp add: t_def)
    then have "t = 0" using assms(1) by (simp add: t_def)
    then show ?thesis by (simp add: c0)
  qed
  have "\<lfloor>c * (1292 / 100) * 255 + 1 / 2\<rfloor> = r"
    using near by (intro floor_unique) (simp_all add: t_def)
  then show ?thesis by (simp add: js_round_def v)
qed

lemma gamma_stable_high:
  assumes "11 \<le> r" and "r \<le> 255"
    and "\<bar>x - srgbToLinear (real_of_int r)\<bar> \<le> 2 / 1000000"
  shows "js_round (linearToSrgb x) = r"
proof -
  define t where "t = real_of_int r"
  have t: "11 \<le> t" "t \<le> 255" using assms by (simp_all add: t_def)
  define h :: real where "h = 1 / 2 / 255 / (1055 / 1000)"
  define U where "U = (t / 255 + 55 / 1000) / (1055 / 1000)"
  define Um where "Um = U - h"
  define Up where "Up = U + h"
  have h: "18 / 10000 \<le> h" "0 \<le> h" by (simp_all add: h_def)
  have U: "93 / 1000 \<le> U" "U \<le> 1" using t by (simp_all add: U_def field_simps)
  have Um: "911 / 10000 \<le> Um" "Um \<le> 1" "0 < Um"
    using t by (simp_all add: Um_def U_def h_def field_simps)
  have Um_eq: "(1055 / 1000 * Um - 55 / 1000) * 255 = t - 1 / 2"
    by (simp add: Um_def U_def h_def field_simps)
  have Up_eq: "(1055 / 1000 * Up - 55 / 1000) * 255 = t + 1 / 2"
    by (simp add: Up_def U_def h_def field_simps)
  have x: "\<bar>x - U powr (12 / 5)\<bar> \<le> 2 / 1000000"
    using assms(3) srgbToLinear_int_high [OF assms(1)] by (simp add: U_def t_def)
  have "(911 / 10000)\<^sup>2 \<le> Um\<^sup>2"
    using Um by (intro power_mono) simp_all
  then have "2 * (18 / 10000) * (911 / 10000)\<^sup>2 \<le> 2 * h * Um\<^sup>2"
    using h by (intro mult_mono) simp_all
  then have step_m: "29 / 1000000 \<le> 2 * h * Um\<^sup>2"
    by (simp add: power2_eq_square)
  have "(93 / 1000)\<^sup>2 \<le> U\<^sup>2"
    using U by (intro power_mono) simp_all
  then have "2 * (18 / 10000) * (93 / 1000)\<^sup>2 \<le> 2 * h * U\<^sup>2"
    using h by (intro mult_mono) simp_all
  then have step_p: "29 / 1000000 \<le> 2 * h * U\<^sup>2"
    by (simp add: power2_eq_square)
  have gap_m: "Um powr (12 / 5) + 29 / 1000000 \<le> U powr (12 / 5)"
    using powr_gap [of Um h] Um h step_m by (simp add: Um_def)
  have gap_p: "U powr (12 / 5) + 29 / 1000000 \<le> Up powr (12 / 5)"
    using powr_gap [of U h] U h step_p by (simp add: Up_def)
  have Ulow: "32 / 10000 \<le> U powr (12 / 5)"
    using U by (intro powr_12_5_lower)
  have Uhigh: "U powr (12 / 5) \<le> 1"
    using U by (intro powr_le1) simp_all
  define c where "c = min 1 x"
  have c_low: "Um powr (12 / 5) < c"
    using x gap_m Uhigh unfolding c_def by argo
  have c_high: "c < Up powr (12 / 5)"
    using x gap_p unfolding c_def by argo
  have c_branch: "31308 / 10000000 < c"
    using x Ulow unfolding c_def by argo
  have v: "linearToSrgb x = (1055 / 1000 * c powr (5 / 12) - 55 / 1000) * 255"
    using c_branch by (simp add: linearToSrgb_def Let_def max_def flip: c_def)
  have "(Um powr (12 / 5)) powr (5 / 12) < c powr (5 / 12)"
    using c_low by (intro powr_less_mono2) simp_all
  then have root_low: "Um < c powr (5 / 12)"
    using Um by (simp add: powr_12_5_inverse)
  have "0 \<le> c" using c_branch by simp
  then have "c powr (5 / 12) < (Up powr (12 / 5)) powr (5 / 12)"
    using c_high by (intro powr_less_mono2) simp_all
  moreover have "0 < Up" using U h by (simp add: Up_def)
  ultimately have root_high: "c powr (5 / 12) < Up"
    by (simp add: powr_12_5_inverse)
  have "t - 1 / 2 < (1055 / 1000 * c powr (5 / 12) - 55 / 1000) * 255"
    using root_low Um_eq by simp
  moreover have "(1055 / 1000 * c powr (5 / 12) - 55 / 1000) * 255 < t + 1 / 2"
    using root_high Up_eq by simp
  ultimately have "\<lfloor>(1055 / 1000 * c powr (5 / 12) - 55 / 1000) * 255 + 1 / 2\<rfloor> = r"
    by (intro floor_unique) (simp_all add: t_def)
  then show ?thesis by (simp add: js_round_def v)
qed

lemma gamma_stable:
  assumes "0 \<le> r" and "r \<le> 255"
    and "\<bar>x - srgbToLinear (real_of_int r)\<bar> \<le> 2 / 1000000"
  shows "js_round (linearToSrgb x) = r"
  using assms gamma_stable_low [of r x] gamma_stable_high [of r x] by (cases "r \<le> 10") auto

subsubsection \<open>The distance of the inverse matrices from the true inverses\<close>

lemma srgbToLinear_range:
  assumes "0 \<le> c" and "c \<le> 255"
  shows "0 \<le> srgbToLinear c \<and> srgbToLinear c \<le> 1"
proof (cases "c / 255 \<le> 4045 / 100000")
  case True
  then show ?thesis using assms by (simp add: srgbToLinear_def Let_def)
next
  case False
  have "(c / 255 + 55 / 1000) / (1055 / 1000) \<le> 1" using assms by simp
  moreover have "0 \<le> (c / 255 + 55 / 1000) / (1055 / 1000)" using assms by simp
  ultimately have "((c / 255 + 55 / 1000) / (1055 / 1000)) powr (12 / 5) \<le> 1"
    by (intro powr_le1) simp_all
  then show ?thesis using False by (simp add: srgbToLinear_def Let_def)
qed

lemma cube_diff:
  fixes a b e :: real
  assumes "\<bar>a - b\<bar> \<le> e" and "0 \<le> b" and "b \<le> 1" and "e \<le> 1 / 1000"
  shows "\<bar>a ^ 3 - b ^ 3\<bar> \<le> 31 / 10 * e"
proof -
  have e: "0 \<le> e" using assms(1) by linarith
  have a: "\<bar>a\<bar> \<le> 1001 / 1000" using assms by linarith
  have "\<bar>a\<bar>\<^sup>2 \<le> (1001 / 1000)\<^sup>2"
    using a by (intro power_mono) simp_all
  then have aa: "a\<^sup>2 \<le> 1002001 / 1000000" by (simp add: power2_eq_square)
  have "\<bar>a\<bar> * \<bar>b\<bar> \<le> 1001 / 1000 * 1"
    using a assms by (intro mult_mono) simp_all
  then have ab: "\<bar>a * b\<bar> \<le> 1001 / 1000" by (simp add: abs_mult)
  have "b\<^sup>2 \<le> 1\<^sup>2" using assms by (intro power_mono) simp_all
  then have bb: "b\<^sup>2 \<le> 1" by simp
  have "\<bar>a\<^sup>2 + a * b + b\<^sup>2\<bar> \<le> 31 / 10"
    using aa ab bb zero_le_power2 [of a] zero_le_power2 [of b] by linarith
  then have "\<bar>a - b\<bar> * \<bar>a\<^sup>2 + a * b + b\<^sup>2\<bar> \<le> e * (31 / 10)"
    using assms(1) e by (intro mult_mono) simp_all
  moreover have "a ^ 3 - b ^ 3 = (a - b) * (a\<^sup>2 + a * b + b\<^sup>2)"
    by (simp add: power3_eq_cube power2_eq_square algebra_simps)
  ultimately show ?thesis by (simp add: abs_mult)
qed

lemma oklab_inverse_error:
  fixes l m s :: real
  assumes "0 \<le> l" "l \<le> 1" "0 \<le> m" "m \<le> 1" "0 \<le> s" "s \<le> 1"
  defines "L \<equiv> 0.2104542553 * l + 0.7936177850 * m - 0.0040720468 * s"
  defines "A \<equiv> 1.9779984951 * l - 2.4285922050 * m + 0.4505937099 * s"
  defines "B \<equiv> 0.0259040371 * l + 0.7827717662 * m - 0.8086757660 * s"
  shows "\<bar>L + 0.3963377774 * A + 0.2158037573 * B - l\<bar> \<le> 8 / 100000000"
    and "\<bar>L - 0.1055613458 * A - 0.0638541728 * B - m\<bar> \<le> 8 / 100000000"
    and "\<bar>L - 0.0894841775 * A - 1.2914855480 * B - s\<bar> \<le> 8 / 100000000"
proof -
  show "\<bar>L + 0.3963377774 * A + 0.2158037573 * B - l\<bar> \<le> 8 / 100000000"
    using assms(1-6) unfolding L_def A_def B_def by (simp add: algebra_simps) argo
  show "\<bar>L - 0.1055613458 * A - 0.0638541728 * B - m\<bar> \<le> 8 / 100000000"
    using assms(1-6) unfolding L_def A_def B_def by (simp add: algebra_simps) argo
  show "\<bar>L - 0.0894841775 * A - 1.2914855480 * B - s\<bar> \<le> 8 / 100000000"
    using assms(1-6) unfolding L_def A_def B_def by (simp add: algebra_simps) argo
qed

lemma lms_inverse_error:
  fixes lr lg lb dl dm ds :: real
  assumes "0 \<le> lr" "lr \<le> 1" "0 \<le> lg" "lg \<le> 1" "0 \<le> lb" "lb \<le> 1"
    and "\<bar>dl\<bar> \<le> 248 / 1000000000" "\<bar>dm\<bar> \<le> 248 / 1000000000" "\<bar>ds\<bar> \<le> 248 / 1000000000"
  defines "l \<equiv> 0.4122214708 * lr + 0.5363325363 * lg + 0.0514459929 * lb + dl"
  defines "m \<equiv> 0.2119034982 * lr + 0.6806995451 * lg + 0.1073969566 * lb + dm"
  defines "s \<equiv> 0.0883024619 * lr + 0.2817188376 * lg + 0.6299787005 * lb + ds"
  shows "\<bar>4.0767416621 * l - 3.3077115913 * m + 0.2309699292 * s - lr\<bar> \<le> 2 / 1000000"
    and "\<bar>- 1.2684380046 * l + 2.6097574011 * m - 0.3413193965 * s - lg\<bar> \<le> 2 / 1000000"
    and "\<bar>- 0.0041960863 * l - 0.7034186147 * m + 1.7076147010 * s - lb\<bar> \<le> 2 / 1000000"
proof -
  show "\<bar>4.0767416621 * l - 3.3077115913 * m + 0.2309699292 * s - lr\<bar> \<le> 2 / 1000000"
    using assms(1-9) unfolding l_def m_def s_def by (simp add: algebra_simps) argo
  show "\<bar>- 1.2684380046 * l + 2.6097574011 * m - 0.3413193965 * s - lg\<bar> \<le> 2 / 1000000"
    using assms(1-9) unfolding l_def m_def s_def by (simp add: algebra_simps) argo
  show "\<bar>- 0.0041960863 * l - 0.7034186147 * m + 1.7076147010 * s - lb\<bar> \<le> 2 / 1000000"
    using assms(1-9) unfolding l_def m_def s_def by (simp add: algebra_simps) argo
qed

lemma oklch_round_trip_exact:
  assumes "0 \<le> r" "r \<le> 255" "0 \<le> g" "g \<le> 255" "0 \<le> b" "b \<le> 255"
  shows "case rgbToOklch (real_of_int r) (real_of_int g) (real_of_int b) of
           (L, C, H) \<Rightarrow>
             (case oklchToRgb L C H of
                (r', g', b') \<Rightarrow> js_round r' = r \<and> js_round g' = g \<and> js_round b' = b)"
proof -
  define lr where "lr = srgbToLinear (real_of_int r)"
  define lg where "lg = srgbToLinear (real_of_int g)"
  define lb where "lb = srgbToLinear (real_of_int b)"
  have lin: "0 \<le> lr" "lr \<le> 1" "0 \<le> lg" "lg \<le> 1" "0 \<le> lb" "lb \<le> 1"
    using assms srgbToLinear_range [of "real_of_int r"] srgbToLinear_range [of "real_of_int g"]
      srgbToLinear_range [of "real_of_int b"]
    by (simp_all add: lr_def lg_def lb_def)
  define l where "l = 0.4122214708 * lr + 0.5363325363 * lg + 0.0514459929 * lb"
  define m where "m = 0.2119034982 * lr + 0.6806995451 * lg + 0.1073969566 * lb"
  define s where "s = 0.0883024619 * lr + 0.2817188376 * lg + 0.6299787005 * lb"
  have lms: "0 \<le> l" "l \<le> 1" "0 \<le> m" "m \<le> 1" "0 \<le> s" "s \<le> 1"
    using lin by (simp_all add: l_def m_def s_def)
  define l' where "l' = root 3 l"
  define m' where "m' = root 3 m"
  define s' where "s' = root 3 s"
  have roots: "0 \<le> l'" "l' \<le> 1" "0 \<le> m'" "m' \<le> 1" "0 \<le> s'" "s' \<le> 1"
    using lms real_root_le_iff [of 3 l 1] real_root_le_iff [of 3 m 1] real_root_le_iff [of 3 s 1]
    by (simp_all add: l'_def m'_def s'_def real_root_ge_zero)
  have cubes: "l' ^ 3 = l" "m' ^ 3 = m" "s' ^ 3 = s"
    using lms by (simp_all add: l'_def m'_def s'_def)
  define L where "L = 0.2104542553 * l' + 0.7936177850 * m' - 0.0040720468 * s'"
  define A where "A = 1.9779984951 * l' - 2.4285922050 * m' + 0.4505937099 * s'"
  define B where "B = 0.0259040371 * l' + 0.7827717662 * m' - 0.8086757660 * s'"
  define C where "C = sqrt (A * A + B * B)"
  define H0 where "H0 = atan2 B A * 180 / pi"
  define H where "H = (if H0 < 0 then H0 + 360 else H0)"
  have forward_path: "rgbToOklch (real_of_int r) (real_of_int g) (real_of_int b) = (L, C, H)"
    unfolding rgbToOklch_def Let_def L_def A_def B_def C_def H_def H0_def
      l'_def m'_def s'_def l_def m_def s_def lr_def lg_def lb_def
    by (rule refl)
  have cosA: "C * cos (H * pi / 180) = A"
    unfolding C_def H_def H0_def by (simp only: hue_radians polar_cos)
  have sinB: "C * sin (H * pi / 180) = B"
    unfolding C_def H_def H0_def by (simp only: hue_radians polar_sin)
  define l2 where "l2 = L + 0.3963377774 * A + 0.2158037573 * B"
  define m2 where "m2 = L - 0.1055613458 * A - 0.0638541728 * B"
  define s2 where "s2 = L - 0.0894841775 * A - 1.2914855480 * B"
  define x where "x = 4.0767416621 * l2 ^ 3 - 3.3077115913 * m2 ^ 3 + 0.2309699292 * s2 ^ 3"
  define y where "y = - 1.2684380046 * l2 ^ 3 + 2.6097574011 * m2 ^ 3 - 0.3413193965 * s2 ^ 3"
  define z where "z = - 0.0041960863 * l2 ^ 3 - 0.7034186147 * m2 ^ 3 + 1.7076147010 * s2 ^ 3"
  have inverse_path: "oklchToLinearRgb L C H = (x, y, z)"
    unfolding oklchToLinearRgb_def Let_def cosA sinB x_def y_def z_def l2_def m2_def s2_def
    by (rule refl)
  have e2: "\<bar>l2 - l'\<bar> \<le> 8 / 100000000" "\<bar>m2 - m'\<bar> \<le> 8 / 100000000"
    "\<bar>s2 - s'\<bar> \<le> 8 / 100000000"
    using oklab_inverse_error [OF roots]
    unfolding l2_def m2_def s2_def L_def A_def B_def by simp_all
  define dl where "dl = l2 ^ 3 - l"
  define dm where "dm = m2 ^ 3 - m"
  define ds where "ds = s2 ^ 3 - s"
  have e3: "\<bar>dl\<bar> \<le> 248 / 1000000000" "\<bar>dm\<bar> \<le> 248 / 1000000000"
    "\<bar>ds\<bar> \<le> 248 / 1000000000"
    using cube_diff [OF e2(1) roots(1,2)] cube_diff [OF e2(2) roots(3,4)]
      cube_diff [OF e2(3) roots(5,6)]
    by (simp_all add: dl_def dm_def ds_def cubes)
  have l2c: "l2 ^ 3 = 0.4122214708 * lr + 0.5363325363 * lg + 0.0514459929 * lb + dl"
    and m2c: "m2 ^ 3 = 0.2119034982 * lr + 0.6806995451 * lg + 0.1073969566 * lb + dm"
    and s2c: "s2 ^ 3 = 0.0883024619 * lr + 0.2817188376 * lg + 0.6299787005 * lb + ds"
    by (simp_all add: dl_def dm_def ds_def l_def m_def s_def)
  have ex: "\<bar>x - lr\<bar> \<le> 2 / 1000000" "\<bar>y - lg\<bar> \<le> 2 / 1000000" "\<bar>z - lb\<bar> \<le> 2 / 1000000"
    using lms_inverse_error [OF lin e3]
    unfolding x_def y_def z_def l2c m2c s2c by simp_all
  have "js_round (linearToSrgb x) = r" "js_round (linearToSrgb y) = g"
    "js_round (linearToSrgb z) = b"
    using ex assms by (auto intro!: gamma_stable simp: lr_def lg_def lb_def)
  then show ?thesis
    by (simp add: forward_path oklchToRgb_linear inverse_path)
qed

lemma clamp_of_round: "js_round v = n \<Longrightarrow> 0 \<le> n \<Longrightarrow> n \<le> 255 \<Longrightarrow> clamp v = n"
  by (simp add: clamp_def)

lemma oklch_round_trip_bytes:
  assumes "0 \<le> r" "r \<le> 255" "0 \<le> g" "g \<le> 255" "0 \<le> b" "b \<le> 255"
  shows "case rgbToOklch (real_of_int r) (real_of_int g) (real_of_int b) of
           (L, C, H) \<Rightarrow>
             (case oklchToRgb L C H of (x, y, z) \<Rightarrow> clamp x = r \<and> clamp y = g \<and> clamp z = b)"
  using oklch_round_trip_exact [OF assms] assms
  by (auto simp: clamp_of_round split: prod.splits)

lemma oklch_round_trip_hex:
  assumes "0 \<le> r" "r \<le> 255" "0 \<le> g" "g \<le> 255" "0 \<le> b" "b \<le> 255"
  shows "(case rgbToOklch (real_of_int r) (real_of_int g) (real_of_int b) of
            (L, C, H) \<Rightarrow> oklchToHex L C H)
         = rgbToHex (Some (real_of_int r)) (Some (real_of_int g)) (Some (real_of_int b))"
  using oklch_round_trip_bytes [OF assms] assms
  by (auto simp: oklchToHex_def rgbToHex_def hexByte_def clamp_of_int split: prod.splits)

subsubsection \<open>The segments of \<^verbatim>\<open>hue2rgb\<close>\<close>

lemma hue2rgb_rise:
  assumes "0 \<le> k" and "k \<le> 1"
  shows "hue2rgb p q (k / 6) = p + (q - p) * k"
  using assms by (cases "k = 1") (simp_all add: hue2rgb_def Let_def)

lemma hue2rgb_top:
  assumes "1 / 6 \<le> t" and "t \<le> 1 / 2"
  shows "hue2rgb p q t = q"
proof (cases "t = 1 / 2")
  case True
  show ?thesis unfolding True by (simp add: hue2rgb_def Let_def field_simps)
next
  case False
  then show ?thesis using assms by (simp add: hue2rgb_def Let_def)
qed

lemma hue2rgb_fall:
  assumes "0 \<le> k" and "k \<le> 1"
  shows "hue2rgb p q (1 / 2 + k / 6) = q - (q - p) * k"
  using assms by (cases "k = 1") (simp_all add: hue2rgb_def Let_def field_simps)

lemma hue2rgb_bottom:
  assumes "2 / 3 \<le> t" and "t \<le> 1"
  shows "hue2rgb p q t = p"
  using assms by (simp add: hue2rgb_def Let_def)

lemma hue2rgb_wrap_neg:
  assumes "t < 0" and "- 1 \<le> t"
  shows "hue2rgb p q t = hue2rgb p q (t + 1)"
  using assms by (simp add: hue2rgb_def Let_def)

lemma hue2rgb_wrap_pos:
  assumes "1 < t" and "t \<le> 2"
  shows "hue2rgb p q t = hue2rgb p q (t - 1)"
  using assms by (simp add: hue2rgb_def Let_def)

lemma ratio_unit:
  fixes a d :: real
  assumes "0 \<le> a" and "a \<le> d" and "0 < d"
  shows "0 \<le> a / d" and "a / d \<le> 1" and "d * (a / d) = a"
  using assms by simp_all

text \<open>The three channels of a hue whose maximum is \<open>q\<close>, minimum \<open>p\<close> and middle value \<open>v\<close>.\<close>

lemma hue_sector_up:
  fixes p q v :: real
  assumes "p \<le> v" and "v \<le> q" and "p < q"
  defines "k \<equiv> (v - p) / (q - p)"
  shows "hue2rgb p q (k / 6 + 1 / 3) = q"
    and "hue2rgb p q (k / 6) = v"
    and "hue2rgb p q (k / 6 - 1 / 3) = p"
    and "hue2rgb p q (k / 6 + 2 / 3) = p"
    and "hue2rgb p q (k / 6 + 1) = v"
proof -
  have k: "0 \<le> k" "k \<le> 1" "(q - p) * k = v - p"
    using ratio_unit [of "v - p" "q - p"] assms(1-3) by (simp_all add: k_def)
  show "hue2rgb p q (k / 6 + 1 / 3) = q"
    using k by (intro hue2rgb_top) simp_all
  show v: "hue2rgb p q (k / 6) = v"
    using hue2rgb_rise [of k p q] k by simp
  show bottom: "hue2rgb p q (k / 6 + 2 / 3) = p"
    using k by (intro hue2rgb_bottom) simp_all
  have "hue2rgb p q (k / 6 - 1 / 3) = hue2rgb p q (k / 6 - 1 / 3 + 1)"
    using k by (intro hue2rgb_wrap_neg) simp_all
  moreover have "k / 6 - 1 / 3 + 1 = k / 6 + 2 / 3" by argo
  ultimately show "hue2rgb p q (k / 6 - 1 / 3) = p"
    using bottom by metis
  show "hue2rgb p q (k / 6 + 1) = v"
  proof (cases "k = 0")
    case True
    then have "v = p" using k by simp
    then show ?thesis using True by (simp add: hue2rgb_bottom)
  next
    case False
    then have "hue2rgb p q (k / 6 + 1) = hue2rgb p q (k / 6 + 1 - 1)"
      using k by (intro hue2rgb_wrap_pos) simp_all
    moreover have "k / 6 + 1 - 1 = k / 6" by argo
    ultimately show ?thesis using v by metis
  qed
qed

lemma hue_sector_down:
  fixes p q v :: real
  assumes "p \<le> v" and "v \<le> q" and "p < q"
  defines "k \<equiv> (v - p) / (q - p)"
  shows "hue2rgb p q (1 / 3 - k / 6) = q"
    and "hue2rgb p q (2 / 3 - k / 6) = v"
    and "hue2rgb p q (1 - k / 6) = p"
    and "k \<noteq> 0 \<Longrightarrow> hue2rgb p q (4 / 3 - k / 6) = q"
    and "k \<noteq> 0 \<Longrightarrow> hue2rgb p q (- (k / 6)) = p"
proof -
  have k: "0 \<le> k" "k \<le> 1" "(q - p) * k = v - p"
    using ratio_unit [of "v - p" "q - p"] assms(1-3) by (simp_all add: k_def)
  show top: "hue2rgb p q (1 / 3 - k / 6) = q"
    using k by (intro hue2rgb_top) simp_all
  have "hue2rgb p q (1 / 2 + (1 - k) / 6) = q - (q - p) * (1 - k)"
    using k by (intro hue2rgb_fall) simp_all
  moreover have "1 / 2 + (1 - k) / 6 = 2 / 3 - k / 6" by argo
  moreover have "q - (q - p) * (1 - k) = v"
    using k(3) by (simp add: algebra_simps)
  ultimately show "hue2rgb p q (2 / 3 - k / 6) = v"
    by metis
  show bottom: "hue2rgb p q (1 - k / 6) = p"
    using k by (intro hue2rgb_bottom) simp_all
  show "hue2rgb p q (4 / 3 - k / 6) = q" if "k \<noteq> 0"
  proof -
    have "hue2rgb p q (4 / 3 - k / 6) = hue2rgb p q (4 / 3 - k / 6 - 1)"
      using k by (intro hue2rgb_wrap_pos) simp_all
    moreover have "4 / 3 - k / 6 - 1 = 1 / 3 - k / 6" by argo
    ultimately show ?thesis using top by metis
  qed
  show "hue2rgb p q (- (k / 6)) = p" if "k \<noteq> 0"
  proof -
    have "hue2rgb p q (- (k / 6)) = hue2rgb p q (- (k / 6) + 1)"
      using k that by (intro hue2rgb_wrap_neg) simp_all
    moreover have "- (k / 6) + 1 = 1 - k / 6" by argo
    ultimately show ?thesis using bottom by metis
  qed
qed

lemma hsl_saturation:
  fixes mx mn :: real
  assumes "0 \<le> mn" and "mn < mx" and "mx \<le> 1"
  defines "l \<equiv> (mx + mn) / 2"
  defines "s \<equiv> (if l > 0.5 then (mx - mn) / (2 - mx - mn) else (mx - mn) / (mx + mn))"
  defines "q \<equiv> (if l < 0.5 then l * (1 + s) else l + s - l * s)"
  shows "s \<noteq> 0" and "q = mx" and "2 * l - q = mn"
proof -
  have pos: "0 < mx + mn" "0 < 2 - mx - mn" "0 < mx - mn"
    using assms(1-3) by simp_all
  show "s \<noteq> 0"
    using pos by (simp add: s_def)
  show q: "q = mx"
  proof -
    consider "l < 1 / 2" | "l = 1 / 2" | "1 / 2 < l" by linarith
    then show ?thesis
    proof cases
      case 1
      then have "s = (mx - mn) / (mx + mn)" by (simp add: s_def)
      then have "q = l * (1 + (mx - mn) / (mx + mn))" using 1 by (simp add: q_def)
      also have "\<dots> = mx" using pos by (simp add: l_def field_simps)
      finally show ?thesis .
    next
      case 2
      then have sum: "mx + mn = 1" by (simp add: l_def)
      have s: "s = mx - mn" using 2 sum by (simp add: s_def)
      have "q = l + s - l * s" using 2 by (simp add: q_def)
      also have "\<dots> = 1 / 2 + (mx - mn) - 1 / 2 * (mx - mn)" by (simp only: 2 s)
      also have "\<dots> = mx" using sum by argo
      finally show ?thesis .
    next
      case 3
      then have s: "s = (mx - mn) / (2 - mx - mn)" by (simp add: s_def)
      have "q = l + s - l * s" using 3 by (simp add: q_def)
      also have "\<dots> = l + s * (1 - l)" by (simp add: algebra_simps)
      also have "\<dots> = l + (mx - mn) / (2 - mx - mn) * (1 - l)" by (simp only: s)
      also have "\<dots> = mx" using pos by (simp add: l_def field_simps)
      finally show ?thesis .
    qed
  qed
  show "2 * l - q = mn"
    unfolding q l_def by argo
qed

lemma hue_R_max_up:
  fixes R G B :: real
  assumes "B \<le> G" and "G \<le> R" and "B < R"
  defines "h \<equiv> ((G - B) / (R - B) + 0) / 6"
  shows "hue2rgb B R (h + 1 / 3) = R" and "hue2rgb B R h = G"
    and "hue2rgb B R (h - 1 / 3) = B"
proof -
  define k where "k = (G - B) / (R - B)"
  note sector = hue_sector_up [of B G R, folded k_def]
  have h: "h + 1 / 3 = k / 6 + 1 / 3" "h = k / 6" "h - 1 / 3 = k / 6 - 1 / 3"
    unfolding h_def k_def [symmetric] by argo+
  have ord: "B \<le> G" "G \<le> R" "B < R"
    using assms(1-3) by simp_all
  show "hue2rgb B R (h + 1 / 3) = R"
    by (simp only: h(1) sector(1) [OF ord])
  show "hue2rgb B R h = G"
    by (simp only: h(2) sector(2) [OF ord])
  show "hue2rgb B R (h - 1 / 3) = B"
    by (simp only: h(3) sector(3) [OF ord])
qed

lemma hue_R_max_down:
  fixes R G B :: real
  assumes "G < B" and "B \<le> R"
  defines "h \<equiv> ((G - B) / (R - G) + 6) / 6"
  shows "hue2rgb G R (h + 1 / 3) = R" and "hue2rgb G R h = G"
    and "hue2rgb G R (h - 1 / 3) = B"
proof -
  define k where "k = (B - G) / (R - G)"
  note sector = hue_sector_down [of G B R, folded k_def]
  have ord: "G \<le> B" "B \<le> R" "G < R"
    using assms(1-2) by simp_all
  have k0: "k \<noteq> 0"
    using assms(1-2) by (simp add: k_def)
  have "G - B = - (B - G)" by simp
  then have "(G - B) / (R - G) = - k"
    by (simp only: k_def minus_divide_left)
  then have h: "h + 1 / 3 = 4 / 3 - k / 6" "h = 1 - k / 6" "h - 1 / 3 = 2 / 3 - k / 6"
    unfolding h_def by argo+
  show "hue2rgb G R (h + 1 / 3) = R"
    by (simp only: h(1) sector(4) [OF ord k0])
  show "hue2rgb G R h = G"
    by (simp only: h(2) sector(3) [OF ord])
  show "hue2rgb G R (h - 1 / 3) = B"
    by (simp only: h(3) sector(2) [OF ord])
qed

lemma hue_G_max_up:
  fixes R G B :: real
  assumes "R \<le> B" and "B \<le> G" and "R < G"
  defines "h \<equiv> ((B - R) / (G - R) + 2) / 6"
  shows "hue2rgb R G (h + 1 / 3) = R" and "hue2rgb R G h = G"
    and "hue2rgb R G (h - 1 / 3) = B"
proof -
  define k where "k = (B - R) / (G - R)"
  note sector = hue_sector_up [of R B G, folded k_def]
  have h: "h + 1 / 3 = k / 6 + 2 / 3" "h = k / 6 + 1 / 3" "h - 1 / 3 = k / 6"
    unfolding h_def k_def [symmetric] by argo+
  have ord: "R \<le> B" "B \<le> G" "R < G"
    using assms(1-3) by simp_all
  show "hue2rgb R G (h + 1 / 3) = R"
    by (simp only: h(1) sector(4) [OF ord])
  show "hue2rgb R G h = G"
    by (simp only: h(2) sector(1) [OF ord])
  show "hue2rgb R G (h - 1 / 3) = B"
    by (simp only: h(3) sector(2) [OF ord])
qed

lemma hue_G_max_down:
  fixes R G B :: real
  assumes "B < R" and "R < G"
  defines "h \<equiv> ((B - R) / (G - B) + 2) / 6"
  shows "hue2rgb B G (h + 1 / 3) = R" and "hue2rgb B G h = G"
    and "hue2rgb B G (h - 1 / 3) = B"
proof -
  define k where "k = (R - B) / (G - B)"
  note sector = hue_sector_down [of B R G, folded k_def]
  have ord: "B \<le> R" "R \<le> G" "B < G"
    using assms(1-2) by simp_all
  have k0: "k \<noteq> 0"
    using assms(1-2) by (simp add: k_def)
  have "B - R = - (R - B)" by simp
  then have "(B - R) / (G - B) = - k"
    by (simp only: k_def minus_divide_left)
  then have h: "h + 1 / 3 = 2 / 3 - k / 6" "h = 1 / 3 - k / 6" "h - 1 / 3 = - (k / 6)"
    unfolding h_def by argo+
  show "hue2rgb B G (h + 1 / 3) = R"
    by (simp only: h(1) sector(2) [OF ord])
  show "hue2rgb B G h = G"
    by (simp only: h(2) sector(1) [OF ord])
  show "hue2rgb B G (h - 1 / 3) = B"
    by (simp only: h(3) sector(5) [OF ord k0])
qed

lemma hue_B_max_up:
  fixes R G B :: real
  assumes "G \<le> R" and "R < B"
  defines "h \<equiv> ((R - G) / (B - G) + 4) / 6"
  shows "hue2rgb G B (h + 1 / 3) = R" and "hue2rgb G B h = G"
    and "hue2rgb G B (h - 1 / 3) = B"
proof -
  define k where "k = (R - G) / (B - G)"
  note sector = hue_sector_up [of G R B, folded k_def]
  have h: "h + 1 / 3 = k / 6 + 1" "h = k / 6 + 2 / 3" "h - 1 / 3 = k / 6 + 1 / 3"
    unfolding h_def k_def [symmetric] by argo+
  have ord: "G \<le> R" "R \<le> B" "G < B"
    using assms(1-2) by simp_all
  show "hue2rgb G B (h + 1 / 3) = R"
    by (simp only: h(1) sector(5) [OF ord])
  show "hue2rgb G B h = G"
    by (simp only: h(2) sector(4) [OF ord])
  show "hue2rgb G B (h - 1 / 3) = B"
    by (simp only: h(3) sector(1) [OF ord])
qed

lemma hue_B_max_down:
  fixes R G B :: real
  assumes "R < G" and "G < B"
  defines "h \<equiv> ((R - G) / (B - R) + 4) / 6"
  shows "hue2rgb R B (h + 1 / 3) = R" and "hue2rgb R B h = G"
    and "hue2rgb R B (h - 1 / 3) = B"
proof -
  define k where "k = (G - R) / (B - R)"
  note sector = hue_sector_down [of R G B, folded k_def]
  have ord: "R \<le> G" "G \<le> B" "R < B"
    using assms(1-2) by simp_all
  have k0: "k \<noteq> 0"
    using assms(1-2) by (simp add: k_def)
  have "R - G = - (G - R)" by simp
  then have "(R - G) / (B - R) = - k"
    by (simp only: k_def minus_divide_left)
  then have h: "h + 1 / 3 = 1 - k / 6" "h = 2 / 3 - k / 6" "h - 1 / 3 = 1 / 3 - k / 6"
    unfolding h_def by argo+
  show "hue2rgb R B (h + 1 / 3) = R"
    by (simp only: h(1) sector(3) [OF ord])
  show "hue2rgb R B h = G"
    by (simp only: h(2) sector(2) [OF ord])
  show "hue2rgb R B (h - 1 / 3) = B"
    by (simp only: h(3) sector(1) [OF ord])
qed

lemma hsl_hue_channels:
  fixes R G B :: real
  defines "mx \<equiv> max R (max G B)"
  defines "mn \<equiv> min R (min G B)"
  defines "d \<equiv> mx - mn"
  defines "h \<equiv> (if mx = R then ((G - B) / d + (if G < B then 6 else 0)) / 6
                  else if mx = G then ((B - R) / d + 2) / 6
                  else ((R - G) / d + 4) / 6)"
  assumes "mx \<noteq> mn"
  shows "hue2rgb mn mx (h + 1 / 3) = R \<and> hue2rgb mn mx h = G \<and> hue2rgb mn mx (h - 1 / 3) = B"
proof -
  have strict: "mn < mx"
    using assms(5) by (simp add: mx_def mn_def max_def min_def split: if_splits)
  consider (c1) "mx = R" "\<not> G < B"
    | (c2) "mx = R" "G < B"
    | (c3) "mx \<noteq> R" "mx = G" "R \<le> B"
    | (c4) "mx \<noteq> R" "mx = G" "B < R"
    | (c5) "mx \<noteq> R" "mx \<noteq> G" "G \<le> R"
    | (c6) "mx \<noteq> R" "mx \<noteq> G" "R < G"
    by linarith
  then show ?thesis
  proof cases
    case c1
    have ord: "B \<le> G" "G \<le> R" using c1 by (simp_all add: mx_def)
    have mn: "mn = B" using ord by (simp add: mn_def)
    have lt: "B < R" using strict c1(1) mn by simp
    have h: "h = ((G - B) / (R - B) + 0) / 6"
      using c1 by (simp add: h_def d_def mn)
    show ?thesis
      unfolding h mn c1(1) using hue_R_max_up [OF ord lt] by blast
  next
    case c2
    have ord: "G < B" "B \<le> R" using c2 by (simp_all add: mx_def)
    have mn: "mn = G" using ord by (simp add: mn_def)
    have h: "h = ((G - B) / (R - G) + 6) / 6"
      using c2 by (simp add: h_def d_def mn)
    show ?thesis
      unfolding h mn c2(1) using hue_R_max_down [OF ord] by blast
  next
    case c3
    have ord: "R \<le> B" "B \<le> G" "R < G" using c3 by (simp_all add: mx_def max_def split: if_splits)
    have mn: "mn = R" using ord by (simp add: mn_def)
    have h: "h = ((B - R) / (G - R) + 2) / 6"
      using c3 by (simp add: h_def d_def mn)
    show ?thesis
      unfolding h mn c3(2) using hue_G_max_up [OF ord] by blast
  next
    case c4
    have ord: "B < R" "R < G" using c4 by (simp_all add: mx_def max_def split: if_splits)
    have mn: "mn = B" using ord by (simp add: mn_def)
    have h: "h = ((B - R) / (G - B) + 2) / 6"
      using c4 by (simp add: h_def d_def mn)
    show ?thesis
      unfolding h mn c4(2) using hue_G_max_down [OF ord] by blast
  next
    case c5
    have mx: "mx = B" using c5 by (simp add: mx_def max_def split: if_splits)
    have ord: "G \<le> R" "R < B" using c5 by (simp_all add: mx_def max_def split: if_splits)
    have mn: "mn = G" using ord by (simp add: mn_def)
    have h: "h = ((R - G) / (B - G) + 4) / 6"
      using c5 by (simp add: h_def d_def mn mx)
    show ?thesis
      unfolding h mn mx using hue_B_max_up [OF ord] by blast
  next
    case c6
    have mx: "mx = B" using c6 by (simp add: mx_def max_def split: if_splits)
    have ord: "R < G" "G < B" using c6 by (simp_all add: mx_def max_def split: if_splits)
    have mn: "mn = R" using ord by (simp add: mn_def)
    have h: "h = ((R - G) / (B - R) + 4) / 6"
      using c6 by (simp add: h_def d_def mn mx)
    show ?thesis
      unfolding h mn mx using hue_B_max_down [OF ord] by blast
  qed
qed

lemma hsl_round_trip_real:
  fixes r0 g0 b0 :: real
  assumes "0 \<le> r0" "r0 \<le> 255" "0 \<le> g0" "g0 \<le> 255" "0 \<le> b0" "b0 \<le> 255"
  shows "(case rgbToHsl r0 g0 b0 of (h, s, l) \<Rightarrow> hslToRgb h s l)
           = (js_round r0, js_round g0, js_round b0)"
proof -
  define R where "R = r0 / 255"
  define G where "G = g0 / 255"
  define B where "B = b0 / 255"
  define mx where "mx = max R (max G B)"
  define mn where "mn = min R (min G B)"
  define l where "l = (mx + mn) / 2"
  have scaled: "R * 255 = r0" "G * 255 = g0" "B * 255 = b0"
    by (simp_all add: R_def G_def B_def)
  have unit: "0 \<le> R" "R \<le> 1" "0 \<le> G" "G \<le> 1" "0 \<le> B" "B \<le> 1"
    using assms by (simp_all add: R_def G_def B_def)
  have bounds: "0 \<le> mn" "mx \<le> 1" "mn \<le> mx"
    using unit by (simp_all add: mx_def mn_def)
  show ?thesis
  proof (cases "mx = mn")
    case True
    have forward: "rgbToHsl r0 g0 b0 = (0, 0, l)"
      using True
      unfolding rgbToHsl_def Let_def l_def mx_def mn_def R_def G_def B_def by simp
    have same: "R = mx" "G = mx" "B = mx"
      using True by (simp_all add: mx_def mn_def max_def min_def split: if_splits)
    have "l = mx" using True by (simp add: l_def)
    then have "l * 255 = r0" "l * 255 = g0" "l * 255 = b0"
      using scaled same by simp_all
    then have "hslToRgb 0 0 l = (js_round r0, js_round g0, js_round b0)"
      by (simp add: hslToRgb_def Let_def)
    then show ?thesis
      by (simp only: forward prod.case)
  next
    case False
    define d where "d = mx - mn"
    define s where "s = (if l > 0.5 then d / (2 - mx - mn) else d / (mx + mn))"
    define h where "h = (if mx = R then ((G - B) / d + (if G < B then 6 else 0)) / 6
                          else if mx = G then ((B - R) / d + 2) / 6
                          else ((R - G) / d + 4) / 6)"
    define q where "q = (if l < 0.5 then l * (1 + s) else l + s - l * s)"
    have forward: "rgbToHsl r0 g0 b0 = (h * 360, s, l)"
      using False
      unfolding rgbToHsl_def Let_def h_def s_def d_def l_def mx_def mn_def R_def G_def B_def
      by simp
    have strict: "mn < mx" using False bounds by simp
    have sat: "s \<noteq> 0" "q = mx" "2 * l - q = mn"
      using hsl_saturation [OF bounds(1) strict bounds(2)]
      unfolding s_def q_def l_def d_def by simp_all
    have inverse: "hslToRgb (h * 360) s l =
        (js_round (hue2rgb mn mx (h + 1 / 3) * 255), js_round (hue2rgb mn mx h * 255),
         js_round (hue2rgb mn mx (h - 1 / 3) * 255))"
      using sat unfolding hslToRgb_def Let_def q_def by simp
    have "hue2rgb mn mx (h + 1 / 3) = R \<and> hue2rgb mn mx h = G \<and> hue2rgb mn mx (h - 1 / 3) = B"
      using hsl_hue_channels [of R G B] False unfolding h_def d_def mx_def mn_def by simp
    then have "hslToRgb (h * 360) s l = (js_round r0, js_round g0, js_round b0)"
      by (simp only: inverse scaled)
    then show ?thesis
      by (simp only: forward prod.case)
  qed
qed

lemma js_round_of_int: "js_round (real_of_int n) = n"
  unfolding js_round_def by linarith

lemma hsl_round_trip_exact:
  assumes "0 \<le> r" "r \<le> 255" "0 \<le> g" "g \<le> 255" "0 \<le> b" "b \<le> 255"
  shows "(case rgbToHsl (real_of_int r) (real_of_int g) (real_of_int b) of
            (h, s, l) \<Rightarrow> hslToRgb h s l) = (r, g, b)"
  using hsl_round_trip_real [of "real_of_int r" "real_of_int g" "real_of_int b"] assms
  by (simp add: js_round_of_int)

text \<open>
  Claim C1 (round-trip fidelity): for every RGB triple with integer channels in \<open>[0, 255]\<close>,
  \<^verbatim>\<open>rgbToHsl\<close> followed by \<^verbatim>\<open>hslToRgb\<close> returns channels within one unit of the
  originals, and so does \<^verbatim>\<open>rgbToOklch\<close> followed by \<^verbatim>\<open>oklchToRgb\<close> and the rounding
  of \<^verbatim>\<open>rgbToHex\<close>, which packs the byte \<^term>\<open>clamp x\<close> for a channel \<open>x\<close>.
\<close>

theorem round_trip_fidelity:
  assumes "0 \<le> r" "r \<le> 255" "0 \<le> g" "g \<le> 255" "0 \<le> b" "b \<le> 255"
  shows "(case rgbToHsl (real_of_int r) (real_of_int g) (real_of_int b) of
            (h, s, l) \<Rightarrow>
              (case hslToRgb h s l of
                 (r', g', b') \<Rightarrow> \<bar>r' - r\<bar> \<le> 1 \<and> \<bar>g' - g\<bar> \<le> 1 \<and> \<bar>b' - b\<bar> \<le> 1))
       \<and> (case rgbToOklch (real_of_int r) (real_of_int g) (real_of_int b) of
            (L, C, H) \<Rightarrow>
              (case oklchToRgb L C H of
                 (x, y, z) \<Rightarrow>
                   \<bar>clamp x - r\<bar> \<le> 1 \<and> \<bar>clamp y - g\<bar> \<le> 1 \<and> \<bar>clamp z - b\<bar> \<le> 1))"
proof
  show "case rgbToHsl (real_of_int r) (real_of_int g) (real_of_int b) of
          (h, s, l) \<Rightarrow>
            (case hslToRgb h s l of
               (r', g', b') \<Rightarrow> \<bar>r' - r\<bar> \<le> 1 \<and> \<bar>g' - g\<bar> \<le> 1 \<and> \<bar>b' - b\<bar> \<le> 1)"
    using hsl_round_trip_exact [OF assms] by (auto split: prod.splits)
  show "case rgbToOklch (real_of_int r) (real_of_int g) (real_of_int b) of
          (L, C, H) \<Rightarrow>
            (case oklchToRgb L C H of
               (x, y, z) \<Rightarrow>
                 \<bar>clamp x - r\<bar> \<le> 1 \<and> \<bar>clamp y - g\<bar> \<le> 1 \<and> \<bar>clamp z - b\<bar> \<le> 1)"
    using oklch_round_trip_bytes [OF assms] by (auto split: prod.splits)
qed

theorem round_trip_fidelity_witness:
  "((0::int) \<le> 170 \<and> (170::int) \<le> 255 \<and> (0::int) \<le> 84 \<and> (84::int) \<le> 255
      \<and> (0::int) \<le> 32 \<and> (32::int) \<le> 255)
   \<and> (case rgbToHsl 170 84 32 of
        (h, s, l) \<Rightarrow>
          (case hslToRgb h s l of
             (r', g', b') \<Rightarrow> \<bar>r' - 170\<bar> \<le> 1 \<and> \<bar>g' - 84\<bar> \<le> 1 \<and> \<bar>b' - 32\<bar> \<le> 1))
   \<and> (case rgbToOklch 170 84 32 of
        (L, C, H) \<Rightarrow>
          (case oklchToRgb L C H of
             (x, y, z) \<Rightarrow>
               \<bar>clamp x - 170\<bar> \<le> 1 \<and> \<bar>clamp y - 84\<bar> \<le> 1 \<and> \<bar>clamp z - 32\<bar> \<le> 1))"
  using round_trip_fidelity [of 170 84 32] by simp

end
